theory Spec2Isabelle
  imports Main "HOL-Library.Word"
begin

unbundle bit_operations_syntax

section \<open>Elevator-Emulator.c: data\<close>

text \<open>
  \<^verbatim>\<open>ElevatorFloor\<close> is the enum \<^verbatim>\<open>{UNDEF_FLOOR = -1, FLOOR_0 = 0, FLOOR_1 = 4, FLOOR_2 = 8,
  FLOOR_3 = 12}\<close>. The program stores every coordinate from 0 to 12 in variables of this
  type and computes with them in \<^verbatim>\<open>int\<close>, so a coordinate is an \<open>int\<close> here. The
  fixed-width variables (\<^verbatim>\<open>uint8_t\<close>, \<^verbatim>\<open>uint16_t\<close>, \<^verbatim>\<open>uint32_t\<close>) are words, with the
  wrap-around of the hardware.
\<close>

type_synonym ElevatorFloor = int

definition FLOOR_0 :: ElevatorFloor where "FLOOR_0 = 0"
definition FLOOR_1 :: ElevatorFloor where "FLOOR_1 = 4"
definition FLOOR_2 :: ElevatorFloor where "FLOOR_2 = 8"
definition FLOOR_3 :: ElevatorFloor where "FLOOR_3 = 12"

text \<open>Bit numbers of \<^verbatim>\<open>avr/io.h\<close> used by the file.\<close>

definition PC0 :: nat where "PC0 = 0"
definition PC1 :: nat where "PC1 = 1"
definition PC2 :: nat where "PC2 = 2"
definition PC3 :: nat where "PC3 = 3"
definition PC5 :: nat where "PC5 = 5"
definition PC6 :: nat where "PC6 = 6"
definition PC7 :: nat where "PC7 = 7"
definition PD6 :: nat where "PD6 = 6"

text \<open>
  The colour macros of \<^verbatim>\<open>display.h\<close> (not part of the file), by name. The LED matrix
  is only ever written: \<open>matrix\<close> below is the list of the calls
  \<^verbatim>\<open>update_square_colour(x, y, colour)\<close> made so far, oldest first.
\<close>

datatype colour =
  EMPTY_SQUARE | FLOOR | ELEVATOR
  | TRAVELLER_TO_0 | TRAVELLER_TO_1 | TRAVELLER_TO_2 | TRAVELLER_TO_3

datatype direction = Up | Down | Stationary

text \<open>
  One call of \<^verbatim>\<open>display_information\<close> prints the floor number, the direction (nothing
  when no branch of its \<^verbatim>\<open>if\<close> chain applies) and the two counters; \<open>terminal\<close> is the
  list of these reports, oldest first.
\<close>

type_synonym report = "int \<times> direction option \<times> 8 word \<times> 8 word"

record emu_state =
  time_since_move :: "32 word"
  current_position :: ElevatorFloor
  destination :: ElevatorFloor
  direction_change :: "8 word"
  old_direction_change :: "8 word"
  old_floor :: ElevatorFloor
  current_floor :: ElevatorFloor
  traveller_active :: bool
  traveller_onboard :: bool
  traveller_floor :: ElevatorFloor
  floors_w_traveller :: "8 word"
  floors_no_traveller :: "8 word"
  digit :: "8 word"
  floor_just_reached :: bool
  animation_phase :: "8 word"
  animation_timer :: "16 word"
  elevator_door_open :: bool
  button_just_pushed :: bool
  button_timer :: "8 word"
  old_position :: "8 word"
  PORTA :: "8 word"
  PORTC :: "8 word"
  DDRD :: "8 word"
  OCR2A :: "8 word"
  OCR2B :: "8 word"
  matrix :: "(int \<times> int \<times> colour) list"
  terminal :: "report list"

text \<open>
  What one iteration of the main loop reads from outside: the clock at line 249 and at
  line 261, \<^verbatim>\<open>PINC\<close> at line 242 and at line 264, the value \<^verbatim>\<open>button_pushed()\<close> leaves
  in the \<^verbatim>\<open>uint8_t btn\<close> (255 for \<^verbatim>\<open>NO_BUTTON_PUSHED\<close>), and the character read from
  the serial port, if one is available.
\<close>

record inputs =
  time_check :: "32 word"
  time_reset :: "32 word"
  pinc_speed :: "8 word"
  pinc_floor :: "8 word"
  button :: "8 word"
  serial :: "8 word option"

section \<open>Sound and display helpers\<close>

definition update_square_colour :: "int \<Rightarrow> int \<Rightarrow> colour \<Rightarrow> emu_state \<Rightarrow> emu_state" where
  "update_square_colour x y c s = s\<lparr>matrix := matrix s @ [(x, y, c)]\<rparr>"

definition start_3kHz_sound :: "emu_state \<Rightarrow> emu_state" where
  "start_3kHz_sound s =
     s\<lparr>DDRD := DDRD s OR push_bit PD6 1, OCR2A := 41, OCR2B := 41 div 2\<rparr>"

definition start_500Hz_sound :: "emu_state \<Rightarrow> emu_state" where
  "start_500Hz_sound s =
     s\<lparr>DDRD := DDRD s OR push_bit PD6 1, OCR2A := 249, OCR2B := 249 div 2\<rparr>"

definition stop_sound :: "emu_state \<Rightarrow> emu_state" where
  "stop_sound s =
     s\<lparr>DDRD := DDRD s AND NOT (push_bit PD6 1), OCR2A := 0, OCR2B := 0\<rparr>"

text \<open>The direction the terminal and the left digit show (lines 493-504 and 522-533).\<close>

definition shown_direction :: "emu_state \<Rightarrow> direction option" where
  "shown_direction s =
     (if floor_just_reached s then Some Stationary
      else if destination s - current_position s > 0 then Some Up
      else if destination s - current_position s < 0 then Some Down
      else if destination s = current_position s then Some Stationary
      else None)"

definition display_information :: "emu_state \<Rightarrow> emu_state" where
  "display_information s =
     s\<lparr>terminal := terminal s @
        [(current_floor s div 4, shown_direction s, floors_w_traveller s, floors_no_traveller s)]\<rparr>"

definition seven_seg :: "8 word list" where
  "seven_seg = [63, 6, 91, 79]"

definition on_a_floor :: "emu_state \<Rightarrow> bool" where
  "on_a_floor s \<longleftrightarrow>
     current_position s = FLOOR_0 \<or> current_position s = FLOOR_1
     \<or> current_position s = FLOOR_2 \<or> current_position s = FLOOR_3"

text \<open>
  \<^verbatim>\<open>handle_seven_seg(digit)\<close>. \<^verbatim>\<open>current_floor\<close> only ever holds 0, 4, 8 or 12, so the
  index \<^verbatim>\<open>current_floor/4\<close> is within the table.
\<close>

definition handle_seven_seg :: "8 word \<Rightarrow> emu_state \<Rightarrow> emu_state" where
  "handle_seven_seg d s =
     (if d = 0 then
        (let s1 = s\<lparr>PORTC := PORTC s AND NOT (push_bit 4 1)\<rparr> in
         if on_a_floor s1 then s1\<lparr>PORTA := seven_seg ! nat (current_floor s1 div 4)\<rparr>
         else s1\<lparr>PORTA := seven_seg ! nat (current_floor s1 div 4) OR 128\<rparr>)
      else
        (let s1 = s\<lparr>PORTC := PORTC s OR push_bit 4 1\<rparr> in
         if floor_just_reached s1 then s1\<lparr>PORTA := 64\<rparr>
         else if destination s1 - current_position s1 > 0 then s1\<lparr>PORTA := 1\<rparr>
         else if destination s1 - current_position s1 < 0 then s1\<lparr>PORTA := 8\<rparr>
         else if destination s1 = current_position s1 then s1\<lparr>PORTA := 64\<rparr>
         else s1))"

section \<open>The timer interrupt\<close>

text \<open>
  Lines 304-317 of \<^verbatim>\<open>ISR(TIMER1_COMPA_vect)\<close>: the two tick counters and the button
  feedback tone.
\<close>

definition isr_timers :: "emu_state \<Rightarrow> emu_state" where
  "isr_timers s =
     (let s1 = (if floor_just_reached s then s\<lparr>animation_timer := animation_timer s + 1\<rparr> else s);
          s2 = (if button_just_pushed s1 then s1\<lparr>button_timer := button_timer s1 + 1\<rparr> else s1);
          s3 = (if button_timer s2 = 1 then start_3kHz_sound s2 else s2)
      in if button_timer s3 \<ge> 100
         then stop_sound (s3\<lparr>button_timer := 0, button_just_pushed := False\<rparr>)
         else s3)"

text \<open>The \<^verbatim>\<open>switch (animation_phase)\<close> of lines 318-353; no case for a phase above 2.\<close>

definition isr_animation :: "emu_state \<Rightarrow> emu_state" where
  "isr_animation s =
     (if animation_phase s = 0 then
        (if animation_timer s \<ge> 800 then s\<lparr>animation_phase := 1, animation_timer := 0\<rparr> else s)
      else if animation_phase s = 1 then
        (let s1 = (if animation_timer s = 1
                   then start_500Hz_sound
                          (s\<lparr>PORTC := (PORTC s OR (push_bit PC0 1 OR push_bit PC3 1))
                                        AND NOT (push_bit PC1 1 OR push_bit PC2 1),
                             elevator_door_open := True\<rparr>)
                   else s);
             s2 = (if animation_timer s1 = 100 then stop_sound s1 else s1)
         in if animation_timer s2 \<ge> 800 then s2\<lparr>animation_phase := 2, animation_timer := 0\<rparr>
            else s2)
      else if animation_phase s = 2 then
        (let s1 = (if animation_timer s = 1
                   then s\<lparr>PORTC := (PORTC s OR (push_bit PC1 1 OR push_bit PC2 1))
                                     AND NOT (push_bit PC0 1 OR push_bit PC3 1),
                          elevator_door_open := False\<rparr>
                   else s)
         in if animation_timer s1 \<ge> 800
            then s1\<lparr>animation_phase := 0, animation_timer := 0, floor_just_reached := False\<rparr>
            else s1)
      else s)"

definition ISR :: "emu_state \<Rightarrow> emu_state" where
  "ISR s =
     (let s1 = handle_seven_seg (digit s) s;
          s2 = s1\<lparr>digit := 1 - digit s1\<rparr>
      in isr_animation (isr_timers s2))"

section \<open>The main loop\<close>

text \<open>
  \<^verbatim>\<open>draw_elevator\<close>, with its static \<^verbatim>\<open>old_position\<close> as a field of the state. \<^verbatim>\<open>y\<close> is
  an \<^verbatim>\<open>int8_t\<close> that holds a coordinate plus at most 3, never negative, so C's \<^verbatim>\<open>%\<close> is
  \<open>mod\<close> on it.
\<close>

definition draw_row :: "int \<Rightarrow> colour \<Rightarrow> emu_state \<Rightarrow> emu_state" where
  "draw_row y c s =
     (if y mod 4 \<noteq> 0 then update_square_colour 2 y c (update_square_colour 1 y c s) else s)"

definition draw_elevator :: "emu_state \<Rightarrow> emu_state" where
  "draw_elevator s =
     (let y = (if uint (old_position s) > current_position s then uint (old_position s) + 3
               else if uint (old_position s) < current_position s then uint (old_position s) + 1
               else 0);
          s1 = draw_row y EMPTY_SQUARE s;
          s2 = s1\<lparr>old_position := word_of_int (current_position s1)\<rparr>
      in fold (\<lambda>i. draw_row (current_position s2 + i) ELEVATOR) [1, 2, 3] s2)"

definition floors :: "ElevatorFloor list" where
  "floors = [FLOOR_0, FLOOR_1, FLOOR_2, FLOOR_3]"

definition colours :: "colour list" where
  "colours = [TRAVELLER_TO_0, TRAVELLER_TO_1, TRAVELLER_TO_2, TRAVELLER_TO_3]"

text \<open>
  The \<^verbatim>\<open>char serial_input\<close> of \<^verbatim>\<open>handle_inputs\<close>: -1 unless a character was read. It is
  compared with \<^verbatim>\<open>'0' + i\<close> as an \<^verbatim>\<open>int\<close>; \<^verbatim>\<open>'0'\<close> is 48. The byte is read as signed
  here; read as unsigned the test gives the same answer, \<open>48 + i\<close> being below 128.
\<close>

definition serial_input :: "inputs \<Rightarrow> 8 word" where
  "serial_input inp = (case serial inp of None \<Rightarrow> - 1 | Some c \<Rightarrow> c)"

definition selected :: "inputs \<Rightarrow> nat \<Rightarrow> bool" where
  "selected inp i \<longleftrightarrow> uint (button inp) = int i \<or> sint (serial_input inp) = 48 + int i"

text \<open>The body of the \<^verbatim>\<open>for\<close> loop of \<^verbatim>\<open>handle_inputs\<close>, for one \<^verbatim>\<open>i\<close>.\<close>

definition place_traveller :: "8 word \<Rightarrow> inputs \<Rightarrow> nat \<Rightarrow> emu_state \<Rightarrow> emu_state" where
  "place_traveller floor_choice inp i s =
     (if selected inp i then
        (if \<not> traveller_active s \<and> int i \<noteq> uint floor_choice then
           (let s1 = s\<lparr>destination := floors ! i\<rparr>;
                s2 = update_square_colour 5 (4 * int i + 1) (colours ! unat floor_choice) s1;
                s3 = s2\<lparr>traveller_active := True\<rparr>;
                s4 = s3\<lparr>traveller_floor := destination s3\<rparr>
            in s4\<lparr>button_just_pushed := True\<rparr>)
         else s)
      else s)"

definition handle_inputs :: "8 word \<Rightarrow> inputs \<Rightarrow> emu_state \<Rightarrow> emu_state" where
  "handle_inputs floor_choice inp s = fold (place_traveller floor_choice inp) [0, 1, 2, 3] s"

definition handle_displays :: "emu_state \<Rightarrow> emu_state" where
  "handle_displays s =
     (let s1 = s\<lparr>direction_change := word_of_int (destination s - current_position s)\<rparr>;
          s2 = (if on_a_floor s1 then s1\<lparr>current_floor := current_position s1\<rparr> else s1);
          floor_changed = (old_floor s2 \<noteq> current_floor s2);
          s3 = (if floor_changed then
                  (if traveller_onboard s2
                   then s2\<lparr>floors_w_traveller := floors_w_traveller s2 + 1\<rparr>
                   else s2\<lparr>floors_no_traveller := floors_no_traveller s2 + 1\<rparr>)
                else s2);
          s4 = (if direction_change s3 \<noteq> old_direction_change s3 \<or> floor_changed
                then display_information s3 else s3)
      in s4\<lparr>old_direction_change := direction_change s4, old_floor := current_floor s4\<rparr>)"

text \<open>Lines 241-262: the speed switch and the movement block.\<close>

definition speed :: "inputs \<Rightarrow> 16 word" where
  "speed inp = (if pinc_speed inp AND push_bit PC7 1 \<noteq> 0 then 300 else 125)"

definition move_due :: "inputs \<Rightarrow> emu_state \<Rightarrow> bool" where
  "move_due inp s \<longleftrightarrow>
     time_check inp - time_since_move s > ucast (speed inp) \<and> \<not> floor_just_reached s"

definition move_block :: "inputs \<Rightarrow> emu_state \<Rightarrow> emu_state" where
  "move_block inp s =
     (if move_due inp s then
        (let s1 = (if destination s - current_position s > 0
                   then s\<lparr>current_position := current_position s + 1\<rparr>
                   else if destination s - current_position s < 0
                   then s\<lparr>current_position := current_position s - 1\<rparr>
                   else s);
             s2 = draw_elevator s1
         in s2\<lparr>time_since_move := time_reset inp\<rparr>)
      else s)"

text \<open>
  The main loop starts a door animation by setting \<^verbatim>\<open>floor_just_reached\<close> (lines 280 and
  285): the interrupt counts \<^verbatim>\<open>animation_timer\<close> only while the flag is set.
\<close>

definition trigger :: "emu_state \<Rightarrow> emu_state" where
  "trigger s = s\<lparr>floor_just_reached := True\<rparr>"

text \<open>Lines 263-289: the block that runs while no door animation is in progress.\<close>

definition floor_choice_of :: "inputs \<Rightarrow> 8 word" where
  "floor_choice_of inp = drop_bit 5 (pinc_floor inp AND (push_bit PC6 1 OR push_bit PC5 1))"

text \<open>
  Lines 271-273, 279-281 and 284-288: the three conditionals of the block, around the
  call of \<^verbatim>\<open>handle_displays\<close>.
\<close>

definition set_pickup_destination :: "8 word \<Rightarrow> emu_state \<Rightarrow> emu_state" where
  "set_pickup_destination floor_choice s =
     (if traveller_active s \<and> traveller_floor s = current_position s
      then s\<lparr>destination := uint floor_choice * 4\<rparr> else s)"

definition begin_pickup :: "emu_state \<Rightarrow> emu_state" where
  "begin_pickup s =
     (if traveller_active s \<and> traveller_floor s = current_position s then trigger s else s)"

definition drop_off :: "emu_state \<Rightarrow> emu_state" where
  "drop_off s =
     (if traveller_onboard s \<and> current_position s = destination s
      then (trigger s)\<lparr>traveller_onboard := False, traveller_active := False\<rparr>
      else s)"

definition dispatch_block :: "inputs \<Rightarrow> emu_state \<Rightarrow> emu_state" where
  "dispatch_block inp s =
     (if \<not> floor_just_reached s then
        (let floor_choice = floor_choice_of inp;
             s1 = handle_inputs floor_choice inp s;
             s2 = set_pickup_destination floor_choice s1;
             s3 = handle_displays s2;
             s4 = begin_pickup s3
         in drop_off s4)
      else s)"

text \<open>Lines 291-294: the traveller steps inside while the doors are open.\<close>

definition boarding_block :: "emu_state \<Rightarrow> emu_state" where
  "boarding_block s =
     (if traveller_active s \<and> traveller_floor s = current_position s \<and> elevator_door_open s
      then (update_square_colour 5 (traveller_floor s + 1) EMPTY_SQUARE s)\<lparr>traveller_onboard := True\<rparr>
      else s)"

definition main_loop_iteration :: "inputs \<Rightarrow> emu_state \<Rightarrow> emu_state" where
  "main_loop_iteration inp s = boarding_block (dispatch_block inp (move_block inp s))"

text \<open>
  The state when the \<^verbatim>\<open>while\<close> loop is entered: the globals as their initialisers and
  lines 227-237 leave them, \<^verbatim>\<open>t0\<close> the clock read at line 218, the timer and port
  registers as \<^verbatim>\<open>initialise_hardware\<close> leaves them. The matrix and terminal logs start
  empty here: they record the calls the loop makes.
\<close>

definition initial_state :: "32 word \<Rightarrow> emu_state" where
  "initial_state t0 =
     \<lparr>time_since_move = t0, current_position = FLOOR_0, destination = FLOOR_0,
      direction_change = 0, old_direction_change = 0, old_floor = FLOOR_0,
      current_floor = FLOOR_0, traveller_active = False, traveller_onboard = False,
      traveller_floor = 0, floors_w_traveller = 0, floors_no_traveller = 0, digit = 0,
      floor_just_reached = False, animation_phase = 0, animation_timer = 0,
      elevator_door_open = False, button_just_pushed = False, button_timer = 0,
      old_position = 0, PORTA = 0,
      PORTC = (0 OR (push_bit PC2 1 OR push_bit PC1 1)) AND NOT (push_bit PC0 1 OR push_bit PC3 1),
      DDRD = 0, OCR2A = 0, OCR2B = 0, matrix = [], terminal = []\<rparr>"

text \<open>
  The interrupt can fire between any two blocks of the loop, and any number of times:
  \<open>reachable pc s\<close> says the program can be in state \<open>s\<close> with the main loop about to run
  the block \<open>pc\<close>. Each block is one step: it begins with its only read of a variable
  the interrupt writes (\<^verbatim>\<open>floor_just_reached\<close> at lines 249 and 263,
  \<^verbatim>\<open>elevator_door_open\<close> at line 291), and an interrupt inside a block is taken as
  arriving after it. The inputs of a block are not constrained.
\<close>

datatype loop_pc = AtMove | AtDispatch | AtBoarding

inductive reachable :: "loop_pc \<Rightarrow> emu_state \<Rightarrow> bool" where
  start: "reachable AtMove (initial_state t0)"
| tick: "reachable pc s \<Longrightarrow> reachable pc (ISR s)"
| move: "reachable AtMove s \<Longrightarrow> reachable AtDispatch (move_block inp s)"
| dispatch: "reachable AtDispatch s \<Longrightarrow> reachable AtBoarding (dispatch_block inp s)"
| boarding: "reachable AtBoarding s \<Longrightarrow> reachable AtMove (boarding_block s)"

text \<open>
  A floor \<open>i\<close> is eligible in a call of \<^verbatim>\<open>handle_inputs\<close> when the loop body's two tests,
  but for \<^verbatim>\<open>!traveller_active\<close>, hold for it.
\<close>

definition eligible :: "8 word \<Rightarrow> inputs \<Rightarrow> nat \<Rightarrow> bool" where
  "eligible fc inp i \<longleftrightarrow> selected inp i \<and> int i \<noteq> uint fc"

text \<open>
  Inputs of one iteration for the examples: the clock reads \<open>t\<close> both times, \<^verbatim>\<open>PINC\<close>
  reads \<open>pinc\<close> both times.
\<close>

definition inputs_at :: "32 word \<Rightarrow> 8 word \<Rightarrow> 8 word \<Rightarrow> 8 word option \<Rightarrow> inputs" where
  "inputs_at t pinc btn ser =
     \<lparr>time_check = t, time_reset = t, pinc_speed = pinc, pinc_floor = pinc,
      button = btn, serial = ser\<rparr>"

text \<open>
  The sequencer's phases follow one another in a cycle: 0 (idle), 1 (opening),
  2 (closing), 0.
\<close>

definition next_phase :: "8 word \<Rightarrow> 8 word" where
  "next_phase p = (if p = 0 then 1 else if p = 1 then 2 else 0)"

text \<open>What holds of the sequencer's variables in every state the program reaches.\<close>

definition sequencer_ok :: "emu_state \<Rightarrow> bool" where
  "sequencer_ok s \<longleftrightarrow>
     (animation_phase s = 0 \<or> animation_phase s = 1 \<or> animation_phase s = 2)
     \<and> animation_timer s < 800
     \<and> (animation_phase s \<noteq> 0 \<longrightarrow> floor_just_reached s)
     \<and> (\<not> floor_just_reached s \<longrightarrow> animation_timer s = 0)
     \<and> (elevator_door_open s \<longleftrightarrow>
          (animation_phase s = 1 \<and> 1 \<le> animation_timer s)
          \<or> (animation_phase s = 2 \<and> animation_timer s = 0))"

text \<open>\<^verbatim>\<open>animation_timer\<close> as the switch of the interrupt reads it, after line 305.\<close>

definition timer_after :: "emu_state \<Rightarrow> 16 word" where
  "timer_after s = (if floor_just_reached s then animation_timer s + 1 else animation_timer s)"

text \<open>
  The buzzer as \<^verbatim>\<open>start_500Hz_sound\<close>, \<^verbatim>\<open>start_3kHz_sound\<close> and \<^verbatim>\<open>stop_sound\<close> leave it.
\<close>

definition tone_500Hz :: "emu_state \<Rightarrow> bool" where
  "tone_500Hz s \<longleftrightarrow> OCR2A s = 249 \<and> OCR2B s = 124 \<and> bit (DDRD s) PD6"

definition tone_3kHz :: "emu_state \<Rightarrow> bool" where
  "tone_3kHz s \<longleftrightarrow> OCR2A s = 41 \<and> OCR2B s = 20 \<and> bit (DDRD s) PD6"

definition silent :: "emu_state \<Rightarrow> bool" where
  "silent s \<longleftrightarrow> OCR2A s = 0 \<and> OCR2B s = 0 \<and> \<not> bit (DDRD s) PD6"

text \<open>
  An execution is a list of events: an interrupt, or one of the three blocks of the main
  loop with what it reads. \<open>run\<close> plays them in order, \<open>tick_count\<close> counts the
  interrupts among them.
\<close>

datatype event = Tick | Move inputs | Dispatch inputs | Boarding

fun step :: "event \<Rightarrow> emu_state \<Rightarrow> emu_state" where
  "step Tick s = ISR s"
| "step (Move inp) s = move_block inp s"
| "step (Dispatch inp) s = dispatch_block inp s"
| "step Boarding s = boarding_block s"

definition run :: "event list \<Rightarrow> emu_state \<Rightarrow> emu_state" where
  "run evs s = fold step evs s"

definition tick_count :: "event list \<Rightarrow> nat" where
  "tick_count evs = length (filter (\<lambda>e. e = Tick) evs)"

text \<open>The sequencer is in phase \<open>p\<close>, triggered, \<open>n\<close> ticks into the phase.\<close>

definition seq_at :: "8 word \<Rightarrow> nat \<Rightarrow> emu_state \<Rightarrow> bool" where
  "seq_at p n s \<longleftrightarrow>
     animation_phase s = p \<and> floor_just_reached s \<and> unat (animation_timer s) = n"

text \<open>The button feedback timer is not running.\<close>

definition button_idle :: "emu_state \<Rightarrow> bool" where
  "button_idle s \<longleftrightarrow> \<not> button_just_pushed s \<and> button_timer s = 0"

text \<open>
  What holds of the button feedback timer in every state the program reaches: while it
  runs, the sequencer is still in phase 0 and has counted no further than the timer.
\<close>

definition button_ok :: "emu_state \<Rightarrow> bool" where
  "button_ok s \<longleftrightarrow>
     button_timer s < 100
     \<and> (\<not> button_just_pushed s \<longrightarrow> button_timer s = 0)
     \<and> (button_just_pushed s \<longrightarrow>
          animation_phase s = 0 \<and> unat (animation_timer s) \<le> unat (button_timer s))"

text \<open>The buzzer \<open>n\<close> ticks into the opening phase.\<close>

definition opening_sound :: "nat \<Rightarrow> emu_state \<Rightarrow> bool" where
  "opening_sound n s \<longleftrightarrow>
     button_idle s \<and> (1 \<le> n \<and> n < 100 \<longrightarrow> tone_500Hz s) \<and> (100 \<le> n \<longrightarrow> silent s)"

text \<open>
  States of the examples. A traveller is placed on floor 0 while the car is there, the
  switches on floor 1: the doors are triggered in the same iteration.
\<close>

definition called_at_floor_0 :: emu_state where
  "called_at_floor_0 = dispatch_block (inputs_at 0 32 0 None) (initial_state 0)"

text \<open>
  A traveller is placed on floor 1, the switches on floor 0, the car on floor 0; three
  iterations later the car is one step below floor 1.
\<close>

definition called_at_floor_1 :: emu_state where
  "called_at_floor_1 = main_loop_iteration (inputs_at 0 0 1 None) (initial_state 0)"

definition below_floor_1 :: emu_state where
  "below_floor_1 =
     fold main_loop_iteration
       [inputs_at 200 0 255 None, inputs_at 400 0 255 None, inputs_at 600 0 255 None]
       called_at_floor_1"

text \<open>
  What the travel counters depend on: the traveller's flags and origin, the car's
  position and destination, the sticky floor (with the copy \<^verbatim>\<open>old_floor\<close> equal to it, as
  after every call of \<^verbatim>\<open>handle_displays\<close>) and the counters themselves.
\<close>

definition car :: "bool \<Rightarrow> bool \<Rightarrow> int \<Rightarrow> int \<Rightarrow> int \<Rightarrow> int \<Rightarrow> 8 word \<Rightarrow> 8 word \<Rightarrow> emu_state \<Rightarrow> bool" where
  "car act onb tf p d cf w n s \<longleftrightarrow>
     traveller_active s = act \<and> traveller_onboard s = onb \<and> traveller_floor s = tf
     \<and> current_position s = p \<and> destination s = d
     \<and> current_floor s = cf \<and> old_floor s = cf
     \<and> floors_w_traveller s = w \<and> floors_no_traveller s = n"

text \<open>The car rests at floor 0, no traveller, no door animation, the counters at \<open>w\<close>, \<open>n\<close>.\<close>

definition home :: "8 word \<Rightarrow> 8 word \<Rightarrow> emu_state \<Rightarrow> bool" where
  "home w n s \<longleftrightarrow>
     current_position s = 0 \<and> destination s = 0
     \<and> \<not> traveller_active s \<and> \<not> traveller_onboard s \<and> \<not> floor_just_reached s
     \<and> current_floor s = 0 \<and> old_floor s = 0
     \<and> floors_w_traveller s = w \<and> floors_no_traveller s = n"

text \<open>
  A run in real time. The interrupt fires every 0.5 ms (line 116), so \<open>ms\<close> milliseconds
  are \<open>2 * ms\<close> interrupts; \<open>iteration_at ms btn\<close> is one iteration of the main loop in
  which the clock reads \<open>ms\<close> milliseconds after the last move, the button queue returns
  \<open>btn\<close> (255 for none), the switches select floor 0 and slow speed, and no character
  has arrived. \<open>advance\<close> is such an iteration 200 ms after the last move. \<open>door_cycle\<close>
  is a whole door animation, 2400 interrupts (1200 ms) from the trigger, with the
  iteration of the main loop that finds the doors open.
\<close>

definition wait_ms :: "nat \<Rightarrow> emu_state \<Rightarrow> emu_state" where
  "wait_ms ms s = run (replicate (2 * ms) Tick) s"

definition iteration_at :: "nat \<Rightarrow> 8 word \<Rightarrow> emu_state \<Rightarrow> emu_state" where
  "iteration_at ms btn s =
     main_loop_iteration (inputs_at (time_since_move s + of_nat ms) 0 btn None) s"

definition advance :: "emu_state \<Rightarrow> emu_state" where
  "advance s = iteration_at 200 255 (wait_ms 200 s)"

definition door_cycle :: "emu_state \<Rightarrow> emu_state" where
  "door_cycle s =
     run (replicate 1599 Tick) (iteration_at 400 255 (run (replicate 801 Tick) s))"

text \<open>
  One traveller carried from floor 1 to floor 0, the car starting and ending at rest on
  floor 0: button 1 is pushed, the car climbs the four steps to floor 1 (one floor
  without a traveller), the doors cycle and the traveller boards, the car descends the
  four steps to floor 0 (one floor with a traveller), the doors cycle.
\<close>

definition round_trip :: "emu_state \<Rightarrow> emu_state" where
  "round_trip s =
     door_cycle ((advance ^^ 3) (iteration_at 1200 255
       (door_cycle ((advance ^^ 4) (iteration_at 1200 1 s)))))"

text \<open>
  From power-up, 255 such travellers, then button 1 once more and three steps up: the
  car is one step below floor 1 and each counter has counted 255 floors.
\<close>

definition counter_full :: emu_state where
  "counter_full =
     (advance ^^ 3) (iteration_at 1200 1
       ((round_trip ^^ 255) (wait_ms 1200 (initial_state 0))))"

text \<open>
  800 ticks after the doors were triggered in \<open>called_at_floor_0\<close>, the sequencer enters
  its opening phase.
\<close>

definition opening_entry :: emu_state where
  "opening_entry = run (replicate 800 Tick) called_at_floor_0"

text \<open>
  The car is at \<open>p\<close> on its way to \<open>d\<close>, no door animation in progress, a traveller
  from coordinate \<open>tf\<close> active, on board or not, the last move at time \<open>t\<close>.
\<close>

definition travelling :: "bool \<Rightarrow> int \<Rightarrow> int \<Rightarrow> int \<Rightarrow> 32 word \<Rightarrow> emu_state \<Rightarrow> bool" where
  "travelling onb tf p d t s \<longleftrightarrow>
     traveller_active s \<and> traveller_onboard s = onb \<and> traveller_floor s = tf
     \<and> current_position s = p \<and> destination s = d \<and> time_since_move s = t
     \<and> \<not> floor_just_reached s \<and> \<not> elevator_door_open s"

text \<open>
  The pick-up of \<open>called_at_floor_0\<close> carried through: the traveller boards when the
  doors open, the animation ends 1599 ticks later, three iterations take the car just
  below floor 1, its destination, and the movement block of the fourth takes it there.
\<close>

definition boarded :: emu_state where
  "boarded = boarding_block (ISR opening_entry)"

definition pickup_done :: emu_state where
  "pickup_done = run (replicate 1599 Tick) boarded"

definition near_destination :: emu_state where
  "near_destination =
     fold main_loop_iteration
       [inputs_at 1200 32 255 None, inputs_at 1400 32 255 None, inputs_at 1600 32 255 None]
       pickup_done"

definition at_destination :: emu_state where
  "at_destination = move_block (inputs_at 1800 32 255 None) near_destination"

text \<open>
  The pick-up of \<open>called_at_floor_0\<close> once more, with the last interrupt of the closing
  phase arriving between the two reads of \<^verbatim>\<open>floor_just_reached\<close> in one iteration of
  the main loop. \<open>closing_end\<close> is one interrupt before the end of the closing phase; the
  movement block (line 249) finds the flag set and does not run; the interrupt ends the
  animation and clears the flag (\<open>closed_again\<close>); the block at line 263 finds it clear
  and runs, 1200 ms after the request, the switches still on floor 1.
\<close>

definition closing_end :: emu_state where
  "closing_end = run (replicate 1598 Tick) boarded"

definition closed_again :: emu_state where
  "closed_again = ISR (move_block (inputs_at 1200 32 255 None) closing_end)"

definition retriggered :: emu_state where
  "retriggered = dispatch_block (inputs_at 1200 32 255 None) closed_again"

text \<open>
  A traveller who asks for floor 0: button 1 is pushed with the switches on floor 0, the
  car climbs to one step below floor 1 (\<open>awaited\<close>). Then the switches are moved to
  floor 1 and left there: \<open>switches_on_1 ms\<close> is an iteration of the main loop that reads
  them so, the clock \<open>ms\<close> milliseconds after the last move, no button pushed. The car
  arrives, the doors cycle, and one more iteration runs.
\<close>

definition switches_on_1 :: "nat \<Rightarrow> emu_state \<Rightarrow> emu_state" where
  "switches_on_1 ms s =
     main_loop_iteration (inputs_at (time_since_move s + of_nat ms) 32 255 None) s"

definition awaited :: emu_state where
  "awaited = (advance ^^ 3) (iteration_at 1200 1 (wait_ms 1200 (initial_state 0)))"

definition left_at_origin :: emu_state where
  "left_at_origin =
     switches_on_1 1200 (door_cycle (switches_on_1 200 (wait_ms 200 awaited)))"

text \<open>A traveller on board is an active traveller.\<close>

definition traveller_ok :: "emu_state \<Rightarrow> bool" where
  "traveller_ok s \<longleftrightarrow> (traveller_onboard s \<longrightarrow> traveller_active s)"

text \<open>
  The button feedback timer has counted \<open>k\<close> ticks since a request armed it.
\<close>

definition feedback_at :: "nat \<Rightarrow> emu_state \<Rightarrow> bool" where
  "feedback_at k s \<longleftrightarrow>
     button_just_pushed s \<and> unat (button_timer s) = k \<and> animation_phase s = 0
     \<and> unat (animation_timer s) \<le> k \<and> (1 \<le> k \<longrightarrow> tone_3kHz s)"


section \<open>The request handler\<close>

lemma place_traveller_not_eligible: "\<not> eligible fc inp i \<Longrightarrow> place_traveller fc inp i s = s"
  by (auto simp: place_traveller_def eligible_def)

lemma place_traveller_active: "traveller_active s \<Longrightarrow> place_traveller fc inp i s = s"
  by (simp add: place_traveller_def)

lemma floors_nth: "i < 4 \<Longrightarrow> floors ! i = 4 * int i"
proof -
  assume "i < 4"
  then have "i = 0 \<or> i = 1 \<or> i = 2 \<or> i = 3" by arith
  then show ?thesis
    by (auto simp: floors_def FLOOR_0_def FLOOR_1_def FLOOR_2_def FLOOR_3_def)
qed

lemma place_traveller_accept:
  "eligible fc inp i \<Longrightarrow> \<not> traveller_active s \<Longrightarrow>
   place_traveller fc inp i s =
     s\<lparr>destination := floors ! i,
       matrix := matrix s @ [(5, 4 * int i + 1, colours ! unat fc)],
       traveller_active := True, traveller_floor := floors ! i, button_just_pushed := True\<rparr>"
  by (simp add: place_traveller_def Let_def update_square_colour_def eligible_def)

lemma fold_place_active:
  "traveller_active s \<Longrightarrow> fold (place_traveller fc inp) ks s = s"
  by (induction ks) (simp_all add: place_traveller_active)

text \<open>The loop accepts the first eligible floor of its range, and nothing after it.\<close>

lemma fold_place_first:
  "\<not> traveller_active s \<Longrightarrow>
   fold (place_traveller fc inp) ks s =
     (case filter (eligible fc inp) ks of [] \<Rightarrow> s | k # _ \<Rightarrow> place_traveller fc inp k s)"
proof (induction ks)
  case Nil
  then show ?case by simp
next
  case (Cons k ks)
  show ?case
  proof (cases "eligible fc inp k")
    case True
    with Cons.prems have "traveller_active (place_traveller fc inp k s)"
      by (simp add: place_traveller_accept)
    with True show ?thesis by (simp add: fold_place_active)
  next
    case False
    with Cons show ?thesis by (simp add: place_traveller_not_eligible)
  qed
qed

lemma handle_inputs_first:
  "handle_inputs fc inp s =
     (if traveller_active s then s
      else case filter (eligible fc inp) [0, 1, 2, 3] of
             [] \<Rightarrow> s | k # _ \<Rightarrow> place_traveller fc inp k s)"
  unfolding handle_inputs_def
  using fold_place_active [of s fc inp "[0, 1, 2, 3]"] fold_place_first [of s fc inp "[0, 1, 2, 3]"]
  by (cases "traveller_active s") simp_all

lemma filter_none: "(\<And>k. k < 4 \<Longrightarrow> \<not> P k) \<Longrightarrow> filter P [0, 1, 2, 3::nat] = []"
  by simp

lemma filter_one:
  assumes "m < 4" "P m" "\<And>k. k < m \<Longrightarrow> \<not> P k"
  shows "\<exists>ks. filter P [0, 1, 2, 3::nat] = m # ks"
proof -
  from assms(1) have "m = 0 \<or> m = 1 \<or> m = 2 \<or> m = 3" by arith
  then show ?thesis
    using assms(2,3) by (elim disjE) simp_all
qed

lemma handle_inputs_at:
  assumes "m < 4" "eligible fc inp m" "\<And>k. k < m \<Longrightarrow> \<not> eligible fc inp k"
  shows "handle_inputs fc inp s =
     (if traveller_active s then s
      else s\<lparr>destination := 4 * int m,
             matrix := matrix s @ [(5, 4 * int m + 1, colours ! unat fc)],
             traveller_active := True, traveller_floor := 4 * int m,
             button_just_pushed := True\<rparr>)"
proof -
  obtain ks where "filter (eligible fc inp) [0, 1, 2, 3] = m # ks"
    using filter_one [of m "eligible fc inp"] assms by blast
  then show ?thesis
    using assms(1,2) by (simp add: handle_inputs_first place_traveller_accept floors_nth)
qed

lemma handle_inputs_rejected:
  assumes "traveller_active s \<or> (\<forall>i<4. selected inp i \<longrightarrow> int i = uint fc)"
  shows "handle_inputs fc inp s = s"
proof (cases "traveller_active s")
  case True
  then show ?thesis by (simp add: handle_inputs_first)
next
  case False
  with assms have "\<And>k. k < 4 \<Longrightarrow> \<not> eligible fc inp k"
    by (auto simp: eligible_def)
  then have "filter (eligible fc inp) [0, 1, 2, 3] = []"
    by (rule filter_none)
  then show ?thesis by (simp add: handle_inputs_first)
qed

lemma selected_button_only:
  "selected (inputs_at t p b None) i \<longleftrightarrow> uint b = int i"
  by (simp add: selected_def inputs_at_def serial_input_def)

lemma uint_button: "i < 4 \<Longrightarrow> uint (of_nat i :: 8 word) = int i"
proof -
  assume "i < 4"
  then have "i = 0 \<or> i = 1 \<or> i = 2 \<or> i = 3" by arith
  then show ?thesis by (elim disjE) simp_all
qed

lemma sint_digit: "j < 4 \<Longrightarrow> sint (48 + of_nat j :: 8 word) = 48 + int j"
proof -
  assume "j < 4"
  then have "j = 0 \<or> j = 1 \<or> j = 2 \<or> j = 3" by arith
  then show ?thesis by (elim disjE) simp_all
qed

lemma selected_both:
  assumes "i < 4" "j < 4" "button inp = of_nat i" "serial inp = Some (48 + of_nat j)"
  shows "selected inp k \<longleftrightarrow> k = i \<or> k = j"
  using assms by (auto simp: selected_def serial_input_def uint_button sint_digit)



text \<open>
  C4. A call of the request handler while a traveller is active, or in which every
  selected floor is the floor the switches select, changes nothing: the whole state,
  and so \<^verbatim>\<open>traveller_active\<close>, \<^verbatim>\<open>traveller_onboard\<close>, \<^verbatim>\<open>traveller_floor\<close>, \<^verbatim>\<open>destination\<close>
  and the feedback timer, is as before, and no error is signalled.
\<close>

theorem request_rejected:
  assumes "traveller_active s \<or> (\<forall>i<4. selected inp i \<longrightarrow> int i = uint fc)"
  shows "handle_inputs fc inp s = s"
  using assms by (rule handle_inputs_rejected)

theorem request_rejected_witness:
  "handle_inputs 0 (inputs_at 0 0 0 None) (initial_state 0) = initial_state 0
   \<and> handle_inputs 0 (inputs_at 0 0 2 None) ((initial_state 0)\<lparr>traveller_active := True\<rparr>)
       = (initial_state 0)\<lparr>traveller_active := True\<rparr>"
  using request_rejected [of "initial_state 0" "inputs_at 0 0 0 None" 0]
    request_rejected [of "(initial_state 0)\<lparr>traveller_active := True\<rparr>" "inputs_at 0 0 2 None" 0]
  by (simp add: selected_button_only)

text \<open>
  C10. In a call of the request handler in which the button selects floor \<open>i\<close> and the
  serial digit a different floor \<open>j\<close>, both other than the floor the switches select, at
  most one traveller is created: with no traveller active the lower of the two floors
  is accepted and the other is not (the state is that of accepting \<open>min i j\<close> alone, one
  marker drawn); with a traveller active nothing changes.
\<close>

theorem simultaneous_requests:
  assumes "i < 4" and "j < 4" and "i \<noteq> j"
    and "int i \<noteq> uint fc" and "int j \<noteq> uint fc"
    and "button inp = of_nat i" and "serial inp = Some (48 + of_nat j)"
  shows "handle_inputs fc inp s =
     (if traveller_active s then s
      else s\<lparr>destination := 4 * int (min i j),
             matrix := matrix s @ [(5, 4 * int (min i j) + 1, colours ! unat fc)],
             traveller_active := True, traveller_floor := 4 * int (min i j),
             button_just_pushed := True\<rparr>)"
proof -
  have sel: "selected inp k \<longleftrightarrow> k = i \<or> k = j" for k
    using assms(1,2,6,7) by (rule selected_both)
  have "min i j < 4"
    using assms(1,2) by simp
  moreover have "eligible fc inp (min i j)"
    using assms(4,5) by (auto simp: eligible_def sel min_def)
  moreover have "\<not> eligible fc inp k" if "k < min i j" for k
    using that by (auto simp: eligible_def sel)
  ultimately show ?thesis
    by (rule handle_inputs_at)
qed

theorem simultaneous_requests_witness:
  "handle_inputs 0 (inputs_at 0 0 2 (Some 49)) (initial_state 0) =
     (initial_state 0)\<lparr>destination := 4, matrix := [(5, 5, TRAVELLER_TO_0)],
        traveller_active := True, traveller_floor := 4, button_just_pushed := True\<rparr>"
  using simultaneous_requests [of 2 1 0 "inputs_at 0 0 2 (Some 49)" "initial_state 0"]
  by (simp add: inputs_at_def initial_state_def colours_def)

section \<open>What each function leaves alone\<close>

lemma update_square_colour_frame [simp]:
  "animation_phase (update_square_colour x y c s) = animation_phase s"
  "animation_timer (update_square_colour x y c s) = animation_timer s"
  "floor_just_reached (update_square_colour x y c s) = floor_just_reached s"
  "elevator_door_open (update_square_colour x y c s) = elevator_door_open s"
  "current_position (update_square_colour x y c s) = current_position s"
  "destination (update_square_colour x y c s) = destination s"
  "traveller_active (update_square_colour x y c s) = traveller_active s"
  "traveller_onboard (update_square_colour x y c s) = traveller_onboard s"
  "traveller_floor (update_square_colour x y c s) = traveller_floor s"
  by (simp_all add: update_square_colour_def)

lemma draw_row_frame [simp]:
  "animation_phase (draw_row y c s) = animation_phase s"
  "animation_timer (draw_row y c s) = animation_timer s"
  "floor_just_reached (draw_row y c s) = floor_just_reached s"
  "elevator_door_open (draw_row y c s) = elevator_door_open s"
  "current_position (draw_row y c s) = current_position s"
  "destination (draw_row y c s) = destination s"
  "traveller_active (draw_row y c s) = traveller_active s"
  "traveller_onboard (draw_row y c s) = traveller_onboard s"
  "traveller_floor (draw_row y c s) = traveller_floor s"
  by (simp_all add: draw_row_def)

lemma draw_elevator_frame [simp]:
  "animation_phase (draw_elevator s) = animation_phase s"
  "animation_timer (draw_elevator s) = animation_timer s"
  "floor_just_reached (draw_elevator s) = floor_just_reached s"
  "elevator_door_open (draw_elevator s) = elevator_door_open s"
  "current_position (draw_elevator s) = current_position s"
  "destination (draw_elevator s) = destination s"
  "traveller_active (draw_elevator s) = traveller_active s"
  "traveller_onboard (draw_elevator s) = traveller_onboard s"
  "traveller_floor (draw_elevator s) = traveller_floor s"
  by (simp_all add: draw_elevator_def Let_def)

lemma display_information_frame [simp]:
  "animation_phase (display_information s) = animation_phase s"
  "animation_timer (display_information s) = animation_timer s"
  "floor_just_reached (display_information s) = floor_just_reached s"
  "elevator_door_open (display_information s) = elevator_door_open s"
  "current_position (display_information s) = current_position s"
  "destination (display_information s) = destination s"
  "traveller_active (display_information s) = traveller_active s"
  "traveller_onboard (display_information s) = traveller_onboard s"
  "traveller_floor (display_information s) = traveller_floor s"
  by (simp_all add: display_information_def)

lemma handle_displays_frame [simp]:
  "animation_phase (handle_displays s) = animation_phase s"
  "animation_timer (handle_displays s) = animation_timer s"
  "floor_just_reached (handle_displays s) = floor_just_reached s"
  "elevator_door_open (handle_displays s) = elevator_door_open s"
  "current_position (handle_displays s) = current_position s"
  "destination (handle_displays s) = destination s"
  "traveller_active (handle_displays s) = traveller_active s"
  "traveller_onboard (handle_displays s) = traveller_onboard s"
  "traveller_floor (handle_displays s) = traveller_floor s"
  by (simp_all add: handle_displays_def Let_def)

lemma place_traveller_frame [simp]:
  "animation_phase (place_traveller fc inp i s) = animation_phase s"
  "animation_timer (place_traveller fc inp i s) = animation_timer s"
  "floor_just_reached (place_traveller fc inp i s) = floor_just_reached s"
  "elevator_door_open (place_traveller fc inp i s) = elevator_door_open s"
  "current_position (place_traveller fc inp i s) = current_position s"
  "traveller_onboard (place_traveller fc inp i s) = traveller_onboard s"
  by (simp_all add: place_traveller_def Let_def)

lemma handle_inputs_frame [simp]:
  "animation_phase (handle_inputs fc inp s) = animation_phase s"
  "animation_timer (handle_inputs fc inp s) = animation_timer s"
  "floor_just_reached (handle_inputs fc inp s) = floor_just_reached s"
  "elevator_door_open (handle_inputs fc inp s) = elevator_door_open s"
  "current_position (handle_inputs fc inp s) = current_position s"
  "traveller_onboard (handle_inputs fc inp s) = traveller_onboard s"
  by (simp_all add: handle_inputs_def)

lemma trigger_frame [simp]:
  "animation_phase (trigger s) = animation_phase s"
  "animation_timer (trigger s) = animation_timer s"
  "floor_just_reached (trigger s)"
  "elevator_door_open (trigger s) = elevator_door_open s"
  "current_position (trigger s) = current_position s"
  "destination (trigger s) = destination s"
  "traveller_active (trigger s) = traveller_active s"
  "traveller_onboard (trigger s) = traveller_onboard s"
  "traveller_floor (trigger s) = traveller_floor s"
  by (simp_all add: trigger_def)

lemma move_block_frame [simp]:
  "animation_phase (move_block inp s) = animation_phase s"
  "animation_timer (move_block inp s) = animation_timer s"
  "floor_just_reached (move_block inp s) = floor_just_reached s"
  "elevator_door_open (move_block inp s) = elevator_door_open s"
  "destination (move_block inp s) = destination s"
  "traveller_active (move_block inp s) = traveller_active s"
  "traveller_onboard (move_block inp s) = traveller_onboard s"
  "traveller_floor (move_block inp s) = traveller_floor s"
  by (simp_all add: move_block_def Let_def)

lemma move_block_position:
  "current_position (move_block inp s) =
     (if move_due inp s then
        (if destination s > current_position s then current_position s + 1
         else if destination s < current_position s then current_position s - 1
         else current_position s)
      else current_position s)"
  by (simp add: move_block_def Let_def)

lemma boarding_block_frame [simp]:
  "animation_phase (boarding_block s) = animation_phase s"
  "animation_timer (boarding_block s) = animation_timer s"
  "floor_just_reached (boarding_block s) = floor_just_reached s"
  "elevator_door_open (boarding_block s) = elevator_door_open s"
  "current_position (boarding_block s) = current_position s"
  "destination (boarding_block s) = destination s"
  "traveller_active (boarding_block s) = traveller_active s"
  "traveller_floor (boarding_block s) = traveller_floor s"
  by (simp_all add: boarding_block_def)

lemma pickup_frame [simp]:
  "animation_phase (set_pickup_destination fc s) = animation_phase s"
  "animation_timer (set_pickup_destination fc s) = animation_timer s"
  "floor_just_reached (set_pickup_destination fc s) = floor_just_reached s"
  "elevator_door_open (set_pickup_destination fc s) = elevator_door_open s"
  "current_position (set_pickup_destination fc s) = current_position s"
  "traveller_active (set_pickup_destination fc s) = traveller_active s"
  "traveller_onboard (set_pickup_destination fc s) = traveller_onboard s"
  "traveller_floor (set_pickup_destination fc s) = traveller_floor s"
  "animation_phase (begin_pickup s) = animation_phase s"
  "animation_timer (begin_pickup s) = animation_timer s"
  "elevator_door_open (begin_pickup s) = elevator_door_open s"
  "current_position (begin_pickup s) = current_position s"
  "destination (begin_pickup s) = destination s"
  "traveller_active (begin_pickup s) = traveller_active s"
  "traveller_onboard (begin_pickup s) = traveller_onboard s"
  "traveller_floor (begin_pickup s) = traveller_floor s"
  "animation_phase (drop_off s) = animation_phase s"
  "animation_timer (drop_off s) = animation_timer s"
  "elevator_door_open (drop_off s) = elevator_door_open s"
  "current_position (drop_off s) = current_position s"
  "destination (drop_off s) = destination s"
  "traveller_floor (drop_off s) = traveller_floor s"
  by (simp_all add: set_pickup_destination_def begin_pickup_def drop_off_def)

lemma dispatch_block_busy: "floor_just_reached s \<Longrightarrow> dispatch_block inp s = s"
  by (simp add: dispatch_block_def)

lemma dispatch_block_frame [simp]:
  "animation_phase (dispatch_block inp s) = animation_phase s"
  "animation_timer (dispatch_block inp s) = animation_timer s"
  "elevator_door_open (dispatch_block inp s) = elevator_door_open s"
  "current_position (dispatch_block inp s) = current_position s"
  by (simp_all add: dispatch_block_def Let_def)

lemma dispatch_block_fjr_mono:
  "floor_just_reached s \<Longrightarrow> floor_just_reached (dispatch_block inp s)"
  by (simp add: dispatch_block_busy)

section \<open>The interrupt, field by field\<close>

lemma sound_frame [simp]:
  "animation_phase (stop_sound s) = animation_phase s"
  "animation_timer (stop_sound s) = animation_timer s"
  "floor_just_reached (stop_sound s) = floor_just_reached s"
  "elevator_door_open (stop_sound s) = elevator_door_open s"
  "button_just_pushed (stop_sound s) = button_just_pushed s"
  "button_timer (stop_sound s) = button_timer s"
  "animation_phase (start_3kHz_sound s) = animation_phase s"
  "animation_timer (start_3kHz_sound s) = animation_timer s"
  "floor_just_reached (start_3kHz_sound s) = floor_just_reached s"
  "elevator_door_open (start_3kHz_sound s) = elevator_door_open s"
  "button_just_pushed (start_3kHz_sound s) = button_just_pushed s"
  "button_timer (start_3kHz_sound s) = button_timer s"
  "animation_phase (start_500Hz_sound s) = animation_phase s"
  "animation_timer (start_500Hz_sound s) = animation_timer s"
  "floor_just_reached (start_500Hz_sound s) = floor_just_reached s"
  "elevator_door_open (start_500Hz_sound s) = elevator_door_open s"
  "button_just_pushed (start_500Hz_sound s) = button_just_pushed s"
  "button_timer (start_500Hz_sound s) = button_timer s"
  by (simp_all add: stop_sound_def start_3kHz_sound_def start_500Hz_sound_def)

lemma sound_car [simp]:
  "current_position (stop_sound s) = current_position s"
  "destination (stop_sound s) = destination s"
  "traveller_active (stop_sound s) = traveller_active s"
  "traveller_onboard (stop_sound s) = traveller_onboard s"
  "traveller_floor (stop_sound s) = traveller_floor s"
  "current_position (start_3kHz_sound s) = current_position s"
  "destination (start_3kHz_sound s) = destination s"
  "traveller_active (start_3kHz_sound s) = traveller_active s"
  "traveller_onboard (start_3kHz_sound s) = traveller_onboard s"
  "traveller_floor (start_3kHz_sound s) = traveller_floor s"
  "current_position (start_500Hz_sound s) = current_position s"
  "destination (start_500Hz_sound s) = destination s"
  "traveller_active (start_500Hz_sound s) = traveller_active s"
  "traveller_onboard (start_500Hz_sound s) = traveller_onboard s"
  "traveller_floor (start_500Hz_sound s) = traveller_floor s"
  by (simp_all add: stop_sound_def start_3kHz_sound_def start_500Hz_sound_def)

lemma sound_made [simp]:
  "silent (stop_sound s)" "tone_500Hz (start_500Hz_sound s)" "tone_3kHz (start_3kHz_sound s)"
  by (simp_all add: silent_def tone_500Hz_def tone_3kHz_def stop_sound_def
      start_500Hz_sound_def start_3kHz_sound_def PD6_def bit_simps)

lemma handle_seven_seg_frame [simp]:
  "animation_phase (handle_seven_seg d s) = animation_phase s"
  "animation_timer (handle_seven_seg d s) = animation_timer s"
  "floor_just_reached (handle_seven_seg d s) = floor_just_reached s"
  "elevator_door_open (handle_seven_seg d s) = elevator_door_open s"
  "button_just_pushed (handle_seven_seg d s) = button_just_pushed s"
  "button_timer (handle_seven_seg d s) = button_timer s"
  "OCR2A (handle_seven_seg d s) = OCR2A s"
  "OCR2B (handle_seven_seg d s) = OCR2B s"
  "DDRD (handle_seven_seg d s) = DDRD s"
  "current_position (handle_seven_seg d s) = current_position s"
  "destination (handle_seven_seg d s) = destination s"
  "traveller_active (handle_seven_seg d s) = traveller_active s"
  "traveller_onboard (handle_seven_seg d s) = traveller_onboard s"
  "traveller_floor (handle_seven_seg d s) = traveller_floor s"
  by (simp_all add: handle_seven_seg_def Let_def)

lemma isr_timers_seq [simp]:
  "animation_phase (isr_timers s) = animation_phase s"
  "animation_timer (isr_timers s) = timer_after s"
  "floor_just_reached (isr_timers s) = floor_just_reached s"
  "elevator_door_open (isr_timers s) = elevator_door_open s"
  "current_position (isr_timers s) = current_position s"
  "destination (isr_timers s) = destination s"
  "traveller_active (isr_timers s) = traveller_active s"
  "traveller_onboard (isr_timers s) = traveller_onboard s"
  "traveller_floor (isr_timers s) = traveller_floor s"
  by (simp_all add: isr_timers_def Let_def timer_after_def)

lemma isr_animation_car [simp]:
  "current_position (isr_animation s) = current_position s"
  "destination (isr_animation s) = destination s"
  "traveller_active (isr_animation s) = traveller_active s"
  "traveller_onboard (isr_animation s) = traveller_onboard s"
  "traveller_floor (isr_animation s) = traveller_floor s"
  "button_just_pushed (isr_animation s) = button_just_pushed s"
  "button_timer (isr_animation s) = button_timer s"
  by (simp_all add: isr_animation_def Let_def)

lemma isr_animation_phase:
  "animation_phase (isr_animation s) =
     (if 800 \<le> animation_timer s then
        (if animation_phase s = 0 then 1 else if animation_phase s = 1 then 2
         else if animation_phase s = 2 then 0 else animation_phase s)
      else animation_phase s)"
  by (simp add: isr_animation_def Let_def)

lemma isr_animation_timer:
  "animation_timer (isr_animation s) =
     (if 800 \<le> animation_timer s \<and>
         (animation_phase s = 0 \<or> animation_phase s = 1 \<or> animation_phase s = 2)
      then 0 else animation_timer s)"
  by (simp add: isr_animation_def Let_def)

lemma isr_animation_fjr:
  "floor_just_reached (isr_animation s) =
     (if animation_phase s = 2 \<and> 800 \<le> animation_timer s then False
      else floor_just_reached s)"
  by (simp add: isr_animation_def Let_def)

lemma isr_animation_door:
  "elevator_door_open (isr_animation s) =
     (if animation_phase s = 1 \<and> animation_timer s = 1 then True
      else if animation_phase s = 2 \<and> animation_timer s = 1 then False
      else elevator_door_open s)"
  by (simp add: isr_animation_def Let_def)

lemma ISR_car [simp]:
  "current_position (ISR s) = current_position s"
  "destination (ISR s) = destination s"
  "traveller_active (ISR s) = traveller_active s"
  "traveller_onboard (ISR s) = traveller_onboard s"
  "traveller_floor (ISR s) = traveller_floor s"
  by (simp_all add: ISR_def Let_def)

lemma ISR_phase:
  "animation_phase (ISR s) =
     (if 800 \<le> timer_after s then
        (if animation_phase s = 0 then 1 else if animation_phase s = 1 then 2
         else if animation_phase s = 2 then 0 else animation_phase s)
      else animation_phase s)"
  by (simp add: ISR_def Let_def isr_animation_phase timer_after_def)

lemma ISR_timer:
  "animation_timer (ISR s) =
     (if 800 \<le> timer_after s \<and>
         (animation_phase s = 0 \<or> animation_phase s = 1 \<or> animation_phase s = 2)
      then 0 else timer_after s)"
  by (auto simp: ISR_def Let_def isr_animation_timer timer_after_def)

lemma ISR_fjr:
  "floor_just_reached (ISR s) =
     (if animation_phase s = 2 \<and> 800 \<le> timer_after s then False
      else floor_just_reached s)"
  by (simp add: ISR_def Let_def isr_animation_fjr timer_after_def)

lemma ISR_door:
  "elevator_door_open (ISR s) =
     (if animation_phase s = 1 \<and> timer_after s = 1 then True
      else if animation_phase s = 2 \<and> timer_after s = 1 then False
      else elevator_door_open s)"
  by (simp add: ISR_def Let_def isr_animation_door timer_after_def)

section \<open>Arithmetic of the tick counter\<close>

lemma timer_lt: "(t :: 16 word) < 800 \<longleftrightarrow> unat t < 800"
  by (simp add: word_less_nat_alt)

lemma timer_succ:
  fixes t :: "16 word"
  assumes "t < 800" shows "unat (t + 1) = unat t + 1"
proof -
  from assms have "unat t < 800" by (simp add: timer_lt)
  then have "unat t + unat (1::16 word) < 2 ^ LENGTH(16)" by simp
  then have "unat (t + 1) = unat t + unat (1::16 word)"
    by (simp only: unat_add_lem)
  then show ?thesis by simp
qed

lemma timer_facts:
  fixes t :: "16 word"
  assumes "t < 800"
  shows "800 \<le> t + 1 \<longleftrightarrow> t = 799"
    and "t + 1 = 1 \<longleftrightarrow> t = 0"
    and "t + 1 < 800 \<longleftrightarrow> t \<noteq> 799"
    and "1 \<le> t + 1"
    and "t + 1 \<noteq> 0"
proof -
  from assms have lt: "unat t < 800" by (simp add: timer_lt)
  note s = timer_succ [OF assms]
  show "800 \<le> t + 1 \<longleftrightarrow> t = 799"
    using lt by (auto simp: word_le_nat_alt s word_unat_eq_iff)
  show "t + 1 = 1 \<longleftrightarrow> t = 0"
    by simp
  show "t + 1 < 800 \<longleftrightarrow> t \<noteq> 799"
    using lt by (auto simp: word_less_nat_alt s word_unat_eq_iff)
  show "1 \<le> t + 1"
    by (simp add: word_le_nat_alt s)
  show "t + 1 \<noteq> 0"
    by (simp add: word_unat_eq_iff s)
qed

lemma one_le_timer: "(1 :: 16 word) \<le> t \<longleftrightarrow> t \<noteq> 0"
  by (auto simp: word_le_nat_alt word_unat_eq_iff)

section \<open>The sequencer in every reachable state\<close>

lemma sequencer_ok_ISR: "sequencer_ok s \<Longrightarrow> sequencer_ok (ISR s)"
proof -
  assume ok: "sequencer_ok s"
  then have lt: "animation_timer s < 800" by (simp add: sequencer_ok_def)
  show ?thesis
  proof (cases "floor_just_reached s")
    case False
    with ok show ?thesis
      by (auto simp: sequencer_ok_def ISR_phase ISR_timer ISR_fjr ISR_door timer_after_def)
  next
    case True
    with ok show ?thesis
      unfolding sequencer_ok_def ISR_phase ISR_timer ISR_fjr ISR_door timer_after_def
      by (auto simp: timer_facts [OF lt] one_le_timer)
  qed
qed

lemma sequencer_ok_initial: "sequencer_ok (initial_state t0)"
  by (simp add: sequencer_ok_def initial_state_def)

lemma sequencer_ok_move: "sequencer_ok s \<Longrightarrow> sequencer_ok (move_block inp s)"
  by (simp add: sequencer_ok_def)

lemma sequencer_ok_boarding: "sequencer_ok s \<Longrightarrow> sequencer_ok (boarding_block s)"
  by (simp add: sequencer_ok_def)

lemma sequencer_ok_dispatch: "sequencer_ok s \<Longrightarrow> sequencer_ok (dispatch_block inp s)"
proof (cases "floor_just_reached s")
  case True
  assume "sequencer_ok s"
  with True show ?thesis by (simp add: dispatch_block_busy)
next
  case False
  assume "sequencer_ok s"
  with False show ?thesis by (auto simp: sequencer_ok_def)
qed

lemma reachable_sequencer_ok: "reachable pc s \<Longrightarrow> sequencer_ok s"
  by (induction rule: reachable.induct)
     (simp_all add: sequencer_ok_initial sequencer_ok_ISR sequencer_ok_move
        sequencer_ok_dispatch sequencer_ok_boarding)

section \<open>Counting ticks through a phase\<close>

lemma run_Nil [simp]: "run [] s = s"
  by (simp add: run_def)

lemma run_Cons [simp]: "run (e # evs) s = run evs (step e s)"
  by (simp add: run_def)

lemma run_append: "run (evs @ evs') s = run evs' (run evs s)"
  by (simp add: run_def)

lemma tick_count_simps [simp]:
  "tick_count [] = 0"
  "tick_count (Tick # evs) = Suc (tick_count evs)"
  "tick_count (Move inp # evs) = tick_count evs"
  "tick_count (Dispatch inp # evs) = tick_count evs"
  "tick_count (Boarding # evs) = tick_count evs"
  by (simp_all add: tick_count_def)

lemma tick_count_replicate [simp]: "tick_count (replicate n Tick) = n"
  by (simp add: tick_count_def)

lemma tick_count_append [simp]: "tick_count (evs @ evs') = tick_count evs + tick_count evs'"
  by (simp add: tick_count_def)

lemma sequencer_ok_step: "sequencer_ok s \<Longrightarrow> sequencer_ok (step e s)"
  by (cases e)
     (simp_all add: sequencer_ok_ISR sequencer_ok_move sequencer_ok_dispatch sequencer_ok_boarding)

lemma sequencer_ok_run: "sequencer_ok s \<Longrightarrow> sequencer_ok (run evs s)"
  by (induction evs arbitrary: s) (simp_all add: sequencer_ok_step)

lemma seq_at_timer: "seq_at p n s \<Longrightarrow> n < 800 \<Longrightarrow> animation_timer s < 800"
  by (simp add: seq_at_def timer_lt)

lemma seq_at_tick:
  assumes "seq_at p n s" "n + 1 < 800"
  shows "seq_at p (n + 1) (ISR s)"
proof -
  from assms have lt: "animation_timer s < 800" by (simp add: seq_at_def timer_lt)
  from assms have ne: "animation_timer s \<noteq> 799"
    by (auto simp: seq_at_def)
  from assms(1) have "unat (animation_timer s + 1) = n + 1"
    using timer_succ [OF lt] by (simp add: seq_at_def)
  with assms(1) ne show ?thesis
    by (simp add: seq_at_def ISR_phase ISR_timer ISR_fjr timer_after_def timer_facts [OF lt])
qed

lemma seq_at_main:
  assumes "seq_at p n s" "e \<noteq> Tick"
  shows "seq_at p n (step e s)"
  using assms by (cases e) (simp_all add: seq_at_def dispatch_block_busy)

lemma seq_at_run:
  "seq_at p k s \<Longrightarrow> k + tick_count evs < 800 \<Longrightarrow> seq_at p (k + tick_count evs) (run evs s)"
proof (induction evs arbitrary: k s)
  case Nil
  then show ?case by simp
next
  case (Cons e evs)
  show ?case
  proof (cases "e = Tick")
    case True
    with Cons.prems have "seq_at p (k + 1) (ISR s)"
      by (intro seq_at_tick) simp_all
    from Cons.IH [OF this] Cons.prems(2) True show ?thesis by simp
  next
    case False
    with Cons.prems(1) have "seq_at p k (step e s)" by (rule seq_at_main)
    moreover from False have "tick_count (e # evs) = tick_count evs"
      by (cases e) simp_all
    ultimately show ?thesis
      using Cons.IH [of k "step e s"] Cons.prems(2) by simp
  qed
qed

lemma seq_at_end:
  assumes "seq_at p 799 s"
  shows "animation_phase (ISR s) =
           (if p = 0 then 1 else if p = 1 then 2 else if p = 2 then 0 else p)"
    and "p = 0 \<or> p = 1 \<or> p = 2 \<Longrightarrow> animation_timer (ISR s) = 0"
    and "floor_just_reached (ISR s) \<longleftrightarrow> p \<noteq> 2"
proof -
  from assms have t: "animation_timer s = 799"
    by (simp add: seq_at_def word_unat_eq_iff)
  from assms t show "animation_phase (ISR s) =
           (if p = 0 then 1 else if p = 1 then 2 else if p = 2 then 0 else p)"
    by (simp add: seq_at_def ISR_phase timer_after_def)
  from assms t show "p = 0 \<or> p = 1 \<or> p = 2 \<Longrightarrow> animation_timer (ISR s) = 0"
    by (auto simp: seq_at_def ISR_timer timer_after_def)
  from assms t show "floor_just_reached (ISR s) \<longleftrightarrow> p \<noteq> 2"
    by (simp add: seq_at_def ISR_fjr timer_after_def)
qed

lemma seq_at_next:
  assumes "seq_at p 799 s" "p = 0 \<or> p = 1"
  shows "seq_at (p + 1) 0 (ISR s)"
  using assms seq_at_end [OF assms(1)] by (auto simp: seq_at_def)

text \<open>A whole phase: 800 ticks, the last one the next phase's entry.\<close>

lemma seq_at_phase:
  assumes "seq_at p 0 s" "p = 0 \<or> p = 1" "tick_count evs = 799"
  shows "seq_at (p + 1) 0 (run (evs @ [Tick]) s)"
proof -
  have "seq_at p (0 + tick_count evs) (run evs s)"
    using assms(1,3) by (intro seq_at_run) simp_all
  with assms(3) have "seq_at p 799 (run evs s)" by simp
  then have "seq_at (p + 1) 0 (ISR (run evs s))"
    using assms(2) by (rule seq_at_next)
  then show ?thesis by (simp add: run_append)
qed

section \<open>The button feedback timer and the buzzer\<close>

lemma display_frame_button [simp]:
  "button_just_pushed (update_square_colour x y c s) = button_just_pushed s"
  "button_timer (update_square_colour x y c s) = button_timer s"
  "OCR2A (update_square_colour x y c s) = OCR2A s"
  "OCR2B (update_square_colour x y c s) = OCR2B s"
  "DDRD (update_square_colour x y c s) = DDRD s"
  "button_just_pushed (draw_row y c s) = button_just_pushed s"
  "button_timer (draw_row y c s) = button_timer s"
  "OCR2A (draw_row y c s) = OCR2A s"
  "OCR2B (draw_row y c s) = OCR2B s"
  "DDRD (draw_row y c s) = DDRD s"
  "button_just_pushed (display_information s) = button_just_pushed s"
  "button_timer (display_information s) = button_timer s"
  "OCR2A (display_information s) = OCR2A s"
  "OCR2B (display_information s) = OCR2B s"
  "DDRD (display_information s) = DDRD s"
  "button_just_pushed (trigger s) = button_just_pushed s"
  "button_timer (trigger s) = button_timer s"
  "OCR2A (trigger s) = OCR2A s"
  "OCR2B (trigger s) = OCR2B s"
  "DDRD (trigger s) = DDRD s"
  by (simp_all add: update_square_colour_def draw_row_def display_information_def trigger_def)

lemma draw_elevator_button [simp]:
  "button_just_pushed (draw_elevator s) = button_just_pushed s"
  "button_timer (draw_elevator s) = button_timer s"
  "OCR2A (draw_elevator s) = OCR2A s"
  "OCR2B (draw_elevator s) = OCR2B s"
  "DDRD (draw_elevator s) = DDRD s"
  by (simp_all add: draw_elevator_def Let_def)

lemma handle_displays_button [simp]:
  "button_just_pushed (handle_displays s) = button_just_pushed s"
  "button_timer (handle_displays s) = button_timer s"
  "OCR2A (handle_displays s) = OCR2A s"
  "OCR2B (handle_displays s) = OCR2B s"
  "DDRD (handle_displays s) = DDRD s"
  by (simp_all add: handle_displays_def Let_def)

lemma move_block_button [simp]:
  "button_just_pushed (move_block inp s) = button_just_pushed s"
  "button_timer (move_block inp s) = button_timer s"
  "OCR2A (move_block inp s) = OCR2A s"
  "OCR2B (move_block inp s) = OCR2B s"
  "DDRD (move_block inp s) = DDRD s"
  by (simp_all add: move_block_def Let_def)

lemma boarding_block_button [simp]:
  "button_just_pushed (boarding_block s) = button_just_pushed s"
  "button_timer (boarding_block s) = button_timer s"
  "OCR2A (boarding_block s) = OCR2A s"
  "OCR2B (boarding_block s) = OCR2B s"
  "DDRD (boarding_block s) = DDRD s"
  by (simp_all add: boarding_block_def)

lemma place_traveller_button [simp]:
  "button_timer (place_traveller fc inp i s) = button_timer s"
  "OCR2A (place_traveller fc inp i s) = OCR2A s"
  "OCR2B (place_traveller fc inp i s) = OCR2B s"
  "DDRD (place_traveller fc inp i s) = DDRD s"
  by (simp_all add: place_traveller_def Let_def)

lemma place_traveller_pushed:
  "button_just_pushed s \<Longrightarrow> button_just_pushed (place_traveller fc inp i s)"
  by (simp add: place_traveller_def Let_def)

lemma handle_inputs_button [simp]:
  "button_timer (handle_inputs fc inp s) = button_timer s"
  "OCR2A (handle_inputs fc inp s) = OCR2A s"
  "OCR2B (handle_inputs fc inp s) = OCR2B s"
  "DDRD (handle_inputs fc inp s) = DDRD s"
  by (simp_all add: handle_inputs_def)

lemma handle_inputs_pushed:
  "button_just_pushed s \<Longrightarrow> button_just_pushed (handle_inputs fc inp s)"
  by (simp add: handle_inputs_def place_traveller_pushed)

lemma pickup_button [simp]:
  "button_just_pushed (set_pickup_destination fc s) = button_just_pushed s"
  "button_timer (set_pickup_destination fc s) = button_timer s"
  "OCR2A (set_pickup_destination fc s) = OCR2A s"
  "OCR2B (set_pickup_destination fc s) = OCR2B s"
  "DDRD (set_pickup_destination fc s) = DDRD s"
  "button_just_pushed (begin_pickup s) = button_just_pushed s"
  "button_timer (begin_pickup s) = button_timer s"
  "OCR2A (begin_pickup s) = OCR2A s"
  "OCR2B (begin_pickup s) = OCR2B s"
  "DDRD (begin_pickup s) = DDRD s"
  "button_just_pushed (drop_off s) = button_just_pushed s"
  "button_timer (drop_off s) = button_timer s"
  "OCR2A (drop_off s) = OCR2A s"
  "OCR2B (drop_off s) = OCR2B s"
  "DDRD (drop_off s) = DDRD s"
  by (simp_all add: set_pickup_destination_def begin_pickup_def drop_off_def)

lemma dispatch_block_button [simp]:
  "button_timer (dispatch_block inp s) = button_timer s"
  "OCR2A (dispatch_block inp s) = OCR2A s"
  "OCR2B (dispatch_block inp s) = OCR2B s"
  "DDRD (dispatch_block inp s) = DDRD s"
  by (simp_all add: dispatch_block_def Let_def)

lemma dispatch_block_pushed:
  "button_just_pushed s \<Longrightarrow> button_just_pushed (dispatch_block inp s)"
  by (simp add: dispatch_block_def Let_def handle_inputs_pushed)

subsection \<open>Arithmetic of the button timer\<close>

lemma button_lt: "(t :: 8 word) < 100 \<longleftrightarrow> unat t < 100"
  by (simp add: word_less_nat_alt)

lemma button_succ:
  fixes t :: "8 word"
  assumes "t < 100" shows "unat (t + 1) = unat t + 1"
proof -
  from assms have "unat t < 100" by (simp add: button_lt)
  then have "unat t + unat (1::8 word) < 2 ^ LENGTH(8)" by simp
  then have "unat (t + 1) = unat t + unat (1::8 word)"
    by (simp only: unat_add_lem)
  then show ?thesis by simp
qed

lemma button_facts:
  fixes t :: "8 word"
  assumes "t < 100"
  shows "100 \<le> t + 1 \<longleftrightarrow> t = 99"
    and "t + 1 < 100 \<longleftrightarrow> t \<noteq> 99"
    and "t + 1 \<noteq> 0"
proof -
  from assms have lt: "unat t < 100" by (simp add: button_lt)
  note s = button_succ [OF assms]
  show "100 \<le> t + 1 \<longleftrightarrow> t = 99"
    using lt by (auto simp: word_le_nat_alt s word_unat_eq_iff)
  show "t + 1 < 100 \<longleftrightarrow> t \<noteq> 99"
    using lt by (auto simp: word_less_nat_alt s word_unat_eq_iff)
  show "t + 1 \<noteq> 0"
    by (simp add: word_unat_eq_iff s)
qed

subsection \<open>The interrupt on the button timer\<close>

lemma isr_timers_button:
  "button_timer (isr_timers s) =
     (if button_just_pushed s
      then (if 100 \<le> button_timer s + 1 then 0 else button_timer s + 1)
      else (if 100 \<le> button_timer s then 0 else button_timer s))"
  "button_just_pushed (isr_timers s) =
     (if button_just_pushed s then \<not> 100 \<le> button_timer s + 1 else False)"
  by (simp_all add: isr_timers_def Let_def)

lemma ISR_button:
  "button_timer (ISR s) =
     (if button_just_pushed s
      then (if 100 \<le> button_timer s + 1 then 0 else button_timer s + 1)
      else (if 100 \<le> button_timer s then 0 else button_timer s))"
  "button_just_pushed (ISR s) =
     (if button_just_pushed s then \<not> 100 \<le> button_timer s + 1 else False)"
  by (simp_all add: ISR_def Let_def isr_timers_button)

lemma isr_timers_idle:
  "button_idle s \<Longrightarrow> isr_timers s = s\<lparr>animation_timer := timer_after s\<rparr>"
  by (simp add: isr_timers_def Let_def button_idle_def timer_after_def)

lemma button_idle_ISR: "button_idle s \<Longrightarrow> button_idle (ISR s)"
  by (simp add: button_idle_def ISR_button)

lemma button_ok_ISR:
  assumes "button_ok s"
  shows "button_ok (ISR s)"
proof (cases "button_just_pushed s")
  case False
  with assms show ?thesis
    by (simp add: button_ok_def ISR_button)
next
  case True
  from assms have blt: "button_timer s < 100" by (simp add: button_ok_def)
  from assms True have ph: "animation_phase s = 0"
    and le: "unat (animation_timer s) \<le> unat (button_timer s)"
    by (simp_all add: button_ok_def)
  from blt le have tlt: "animation_timer s < 800"
    by (simp add: timer_lt button_lt)
  show ?thesis
  proof (cases "button_timer s = 99")
    case True
    with \<open>button_just_pushed s\<close> show ?thesis
      by (simp add: button_ok_def ISR_button)
  next
    case False
    then have b1: "\<not> 100 \<le> button_timer s + 1" "button_timer s + 1 < 100"
      by (simp_all add: button_facts [OF blt])
    from blt False have b99: "unat (button_timer s) < 99"
      by (auto simp: button_lt word_unat_eq_iff)
    have ta: "unat (timer_after s) \<le> unat (button_timer s) + 1"
      using le timer_succ [OF tlt] by (simp add: timer_after_def)
    with b99 have "unat (timer_after s) < 800" by simp
    then have "\<not> 800 \<le> timer_after s"
      by (simp add: word_le_nat_alt)
    with True b1 ph ta show ?thesis
      by (simp add: button_ok_def ISR_button ISR_phase ISR_timer button_succ [OF blt])
  qed
qed

lemma button_ok_initial: "button_ok (initial_state t0)"
  by (simp add: button_ok_def initial_state_def)

lemma button_ok_move: "button_ok s \<Longrightarrow> button_ok (move_block inp s)"
  by (simp add: button_ok_def)

lemma button_ok_boarding: "button_ok s \<Longrightarrow> button_ok (boarding_block s)"
  by (simp add: button_ok_def)

lemma button_ok_dispatch:
  assumes "button_ok s" "sequencer_ok s"
  shows "button_ok (dispatch_block inp s)"
proof (cases "floor_just_reached s")
  case True
  with assms show ?thesis by (simp add: dispatch_block_busy)
next
  case False
  with assms(2) have "animation_phase s = 0" "animation_timer s = 0"
    by (auto simp: sequencer_ok_def)
  moreover have "button_just_pushed s" if "\<not> button_timer s = 0"
    using that assms(1) by (auto simp: button_ok_def)
  ultimately show ?thesis
    using assms(1) dispatch_block_pushed [of s inp] by (auto simp: button_ok_def)
qed

lemma reachable_ok: "reachable pc s \<Longrightarrow> sequencer_ok s \<and> button_ok s"
proof (induction rule: reachable.induct)
  case (start t0)
  show ?case by (simp add: sequencer_ok_initial button_ok_initial)
next
  case (tick pc s)
  then show ?case by (simp add: sequencer_ok_ISR button_ok_ISR)
next
  case (move s inp)
  then show ?case by (simp add: sequencer_ok_move button_ok_move)
next
  case (dispatch s inp)
  then show ?case by (simp add: sequencer_ok_dispatch button_ok_dispatch)
next
  case (boarding s)
  then show ?case by (simp add: sequencer_ok_boarding button_ok_boarding)
qed

lemma reachable_button_idle:
  "reachable pc s \<Longrightarrow> animation_phase s \<noteq> 0 \<Longrightarrow> button_idle s"
  using reachable_ok [of pc s] by (auto simp: button_ok_def button_idle_def)

subsection \<open>The buzzer in the opening phase\<close>

lemma isr_animation_opening:
  assumes "animation_phase s = 1"
  shows "animation_timer s = 1 \<Longrightarrow> tone_500Hz (isr_animation s)"
    and "animation_timer s = 100 \<Longrightarrow> silent (isr_animation s)"
    and "animation_timer s \<noteq> 1 \<Longrightarrow> animation_timer s \<noteq> 100 \<Longrightarrow>
         OCR2A (isr_animation s) = OCR2A s \<and> OCR2B (isr_animation s) = OCR2B s
         \<and> DDRD (isr_animation s) = DDRD s"
  using assms
  by (simp_all add: isr_animation_def Let_def tone_500Hz_def silent_def stop_sound_def
      start_500Hz_sound_def PD6_def bit_simps)

lemma opening_sound_tick:
  assumes at: "seq_at 1 n s" and snd: "opening_sound n s" and n: "n < 800"
  shows "opening_sound (n + 1) (ISR s)"
proof -
  define s2 where "s2 = (handle_seven_seg (digit s) s)\<lparr>digit := 1 - digit (handle_seven_seg (digit s) s)\<rparr>"
  define s3 where "s3 = isr_timers s2"
  have isr: "ISR s = isr_animation s3"
    by (simp add: ISR_def Let_def s2_def s3_def)
  from snd have idle: "button_idle s" by (simp add: opening_sound_def)
  then have idle2: "button_idle s2" by (simp add: button_idle_def s2_def)
  from at n have lt: "animation_timer s < 800" by (simp add: seq_at_def timer_lt)
  from at have fjr: "floor_just_reached s" by (simp add: seq_at_def)
  have fjr2: "floor_just_reached s2" "animation_timer s2 = animation_timer s"
    using fjr by (simp_all add: s2_def)
  have s3: "s3 = s2\<lparr>animation_timer := animation_timer s + 1\<rparr>"
    using isr_timers_idle [OF idle2] fjr2 by (simp add: s3_def timer_after_def)
  have ph3: "animation_phase s3 = 1"
    using at by (simp add: s3 s2_def seq_at_def)
  have t3: "unat (animation_timer s3) = n + 1"
    using at timer_succ [OF lt] by (simp add: s3 seq_at_def)
  have regs3: "OCR2A s3 = OCR2A s" "OCR2B s3 = OCR2B s" "DDRD s3 = DDRD s"
    by (simp_all add: s3 s2_def)
  have idle': "button_idle (ISR s)"
    using idle by (rule button_idle_ISR)
  consider "n = 0" | "n = 99" | "n \<noteq> 0" "n \<noteq> 99" by blast
  then show ?thesis
  proof cases
    case 1
    with t3 have "animation_timer s3 = 1" by (simp add: word_unat_eq_iff)
    then have "tone_500Hz (ISR s)"
      using isr_animation_opening(1) [OF ph3] by (simp add: isr)
    with 1 idle' show ?thesis by (simp add: opening_sound_def)
  next
    case 2
    with t3 have "animation_timer s3 = 100" by (simp add: word_unat_eq_iff)
    then have "silent (ISR s)"
      using isr_animation_opening(2) [OF ph3] by (simp add: isr)
    with 2 idle' show ?thesis by (simp add: opening_sound_def)
  next
    case 3
    with t3 have "animation_timer s3 \<noteq> 1" "animation_timer s3 \<noteq> 100"
      by (auto simp: word_unat_eq_iff)
    then have "OCR2A (ISR s) = OCR2A s \<and> OCR2B (ISR s) = OCR2B s \<and> DDRD (ISR s) = DDRD s"
      using isr_animation_opening(3) [OF ph3] regs3 by (simp add: isr)
    then have "tone_500Hz (ISR s) = tone_500Hz s" "silent (ISR s) = silent s"
      by (simp_all add: tone_500Hz_def silent_def)
    with 3 snd idle' show ?thesis by (auto simp: opening_sound_def)
  qed
qed

lemma opening_sound_main:
  assumes "floor_just_reached s" "opening_sound n s" "e \<noteq> Tick"
  shows "opening_sound n (step e s)"
proof (cases e)
  case Tick
  with assms show ?thesis by simp
next
  case (Move inp)
  have "tone_500Hz (move_block inp s) = tone_500Hz s" "silent (move_block inp s) = silent s"
    by (simp_all add: tone_500Hz_def silent_def)
  with assms Move show ?thesis by (simp add: opening_sound_def button_idle_def)
next
  case (Dispatch inp)
  with assms show ?thesis by (simp add: dispatch_block_busy)
next
  case Boarding
  have "tone_500Hz (boarding_block s) = tone_500Hz s" "silent (boarding_block s) = silent s"
    by (simp_all add: tone_500Hz_def silent_def)
  with assms Boarding show ?thesis by (simp add: opening_sound_def button_idle_def)
qed

lemma opening_run:
  "seq_at 1 k s \<Longrightarrow> opening_sound k s \<Longrightarrow> k + tick_count evs < 800 \<Longrightarrow>
   seq_at 1 (k + tick_count evs) (run evs s) \<and> opening_sound (k + tick_count evs) (run evs s)"
proof (induction evs arbitrary: k s)
  case Nil
  then show ?case by simp
next
  case (Cons e evs)
  show ?case
  proof (cases "e = Tick")
    case True
    from Cons.prems True have k: "k + 1 < 800" by simp
    have "seq_at 1 (k + 1) (ISR s)"
      using Cons.prems(1) k by (rule seq_at_tick)
    moreover have "opening_sound (k + 1) (ISR s)"
      using Cons.prems(1,2) k by (intro opening_sound_tick) simp_all
    ultimately have "seq_at 1 (k + 1 + tick_count evs) (run evs (ISR s))
        \<and> opening_sound (k + 1 + tick_count evs) (run evs (ISR s))"
      using Cons.prems(3) True by (intro Cons.IH) simp_all
    with True show ?thesis by simp
  next
    case False
    from Cons.prems(1) have "floor_just_reached s" by (simp add: seq_at_def)
    with Cons.prems False have "seq_at 1 k (step e s)" "opening_sound k (step e s)"
      by (simp_all add: seq_at_main opening_sound_main)
    moreover from False have "tick_count (e # evs) = tick_count evs"
      by (cases e) simp_all
    ultimately show ?thesis
      using Cons.IH [of k "step e s"] Cons.prems(3) by simp
  qed
qed

lemma opening_entry_sound: "button_idle s \<Longrightarrow> opening_sound 0 s"
  by (simp add: opening_sound_def)

section \<open>The movement block\<close>

lemma floor_choice_of_at: "floor_choice_of (inputs_at t p b ser) = drop_bit 5 (p AND 96)"
  by (simp add: floor_choice_of_def inputs_at_def PC5_def PC6_def)

lemma move_due_at:
  "move_due (inputs_at t p b ser) s \<longleftrightarrow>
     t - time_since_move s > (if p AND 128 \<noteq> 0 then 300 else 125) \<and> \<not> floor_just_reached s"
  by (simp add: move_due_def speed_def inputs_at_def PC7_def)

lemma called_at_floor_0_eq:
  "called_at_floor_0 =
     (initial_state 0)\<lparr>destination := 4, matrix := [(5, 1, TRAVELLER_TO_1)],
        traveller_active := True, traveller_floor := 0, button_just_pushed := True,
        direction_change := 4, old_direction_change := 4,
        terminal := [(0, Some Up, 0, 0)], floor_just_reached := True\<rparr>"
  unfolding called_at_floor_0_def
  apply (simp add: dispatch_block_def floor_choice_of_at Let_def)
  apply (simp add: handle_inputs_at [of 0] eligible_def selected_button_only)
  apply (simp add: initial_state_def handle_displays_def Let_def on_a_floor_def FLOOR_0_def
      display_information_def shown_direction_def colours_def trigger_def
      set_pickup_destination_def begin_pickup_def drop_off_def)
  done

lemma called_at_floor_1_eq:
  "called_at_floor_1 =
     (initial_state 0)\<lparr>destination := 4, matrix := [(5, 5, TRAVELLER_TO_0)],
        traveller_active := True, traveller_floor := 4, button_just_pushed := True,
        direction_change := 4, old_direction_change := 4,
        terminal := [(0, Some Up, 0, 0)]\<rparr>"
  unfolding called_at_floor_1_def main_loop_iteration_def
  apply (simp add: move_block_def move_due_at initial_state_def)
  apply (simp add: dispatch_block_def floor_choice_of_at Let_def)
  apply (simp add: handle_inputs_at [of 1] eligible_def selected_button_only)
  apply (simp add: handle_displays_def Let_def on_a_floor_def FLOOR_0_def FLOOR_1_def
      FLOOR_2_def FLOOR_3_def
      display_information_def shown_direction_def colours_def trigger_def boarding_block_def
      set_pickup_destination_def begin_pickup_def drop_off_def)
  done

text \<open>
  C1. The movement block, when it runs (the interval has passed and
  \<^verbatim>\<open>floor_just_reached\<close> is false), moves \<^verbatim>\<open>current_position\<close> by exactly one towards
  \<^verbatim>\<open>destination\<close>: up by one when the destination is above, down by one when it is
  below, not at all when they are equal; when it does not run the position stays. While
  \<^verbatim>\<open>floor_just_reached\<close> is true no block of the main loop and no interrupt changes
  \<^verbatim>\<open>current_position\<close>.
\<close>

theorem car_motion_step:
  "current_position (move_block inp s) =
     (if move_due inp s then
        (if destination s > current_position s then current_position s + 1
         else if destination s < current_position s then current_position s - 1
         else current_position s)
      else current_position s)
   \<and> (floor_just_reached s \<longrightarrow>
        current_position (move_block inp s) = current_position s
        \<and> current_position (dispatch_block inp' s) = current_position s
        \<and> current_position (boarding_block s) = current_position s
        \<and> current_position (ISR s) = current_position s)"
  by (simp add: move_block_position move_due_def)

theorem car_motion_step_witness:
  "current_position (move_block (inputs_at 200 0 255 None) called_at_floor_1) = 1
   \<and> floor_just_reached called_at_floor_0
   \<and> current_position called_at_floor_0 < destination called_at_floor_0
   \<and> current_position (move_block (inputs_at 200 0 255 None) called_at_floor_0)
       = current_position called_at_floor_0"
  using car_motion_step [of "inputs_at 200 0 255 None" called_at_floor_1]
    car_motion_step [of "inputs_at 200 0 255 None" called_at_floor_0]
  unfolding called_at_floor_0_eq called_at_floor_1_eq
  by (simp add: move_due_at initial_state_def FLOOR_0_def)

section \<open>The door sequencer\<close>

lemma reachable_ticks: "reachable pc s \<Longrightarrow> reachable pc (run (replicate n Tick) s)"
proof (induction n arbitrary: s)
  case 0
  then show ?case by simp
next
  case (Suc n)
  from Suc.prems have "reachable pc (ISR s)" by (rule reachable.tick)
  then have "reachable pc (run (replicate n Tick) (ISR s))" by (rule Suc.IH)
  then show ?case by simp
qed

lemma run_ticks_add:
  "run (replicate (m + n) Tick) s = run (replicate n Tick) (run (replicate m Tick) s)"
  by (simp add: replicate_add run_append)

lemma move_block_not_due: "\<not> move_due inp s \<Longrightarrow> move_block inp s = s"
  by (simp add: move_block_def)

lemma reachable_at_dispatch_initial: "reachable AtDispatch (initial_state 0)"
proof -
  have "\<not> move_due (inputs_at 0 32 0 None) (initial_state 0)"
    by (simp add: move_due_at initial_state_def)
  then have "move_block (inputs_at 0 32 0 None) (initial_state 0) = initial_state 0"
    by (rule move_block_not_due)
  then show ?thesis
    using reachable.move [OF reachable.start, of "inputs_at 0 32 0 None" 0] by simp
qed

lemma reachable_called_at_floor_0: "reachable AtBoarding called_at_floor_0"
  unfolding called_at_floor_0_def
  by (rule reachable.dispatch) (rule reachable_at_dispatch_initial)

lemma seq_at_called_at_floor_0: "seq_at 0 0 called_at_floor_0"
  by (simp add: called_at_floor_0_eq seq_at_def initial_state_def)

lemma run_ticks_800: "run (replicate 800 Tick) s = ISR (run (replicate 799 Tick) s)"
proof -
  have "run (replicate (799 + 1) Tick) s = run (replicate 1 Tick) (run (replicate 799 Tick) s)"
    by (rule run_ticks_add)
  then show ?thesis by simp
qed

lemma seq_at_800:
  assumes "seq_at p 0 s" "p = 0 \<or> p = 1"
  shows "seq_at (p + 1) 0 (run (replicate 800 Tick) s)"
proof -
  have "seq_at (p + 1) 0 (run (replicate 799 Tick @ [Tick]) s)"
    using assms by (rule seq_at_phase) simp
  then show ?thesis by (simp add: run_append run_ticks_800)
qed

lemma seq_at_opening_entry: "seq_at 1 0 opening_entry"
  using seq_at_800 [OF seq_at_called_at_floor_0] by (simp add: opening_entry_def)

lemma reachable_opening_entry: "reachable AtBoarding opening_entry"
  unfolding opening_entry_def
  by (rule reachable_ticks) (rule reachable_called_at_floor_0)

text \<open>
  The cycle of the sequencer. In every reachable state the phase is 0 (idle), 1 (opening)
  or 2 (closing); an interrupt leaves it or moves it to the next phase of the cycle 0, 1,
  2, 0 and the main loop never changes it; \<^verbatim>\<open>elevator_door_open\<close> is true exactly from
  tick 1 of the opening phase to tick 0 of the closing phase; and in the opening and
  closing phases a trigger changes nothing (the flag is already set), nor does the block
  that raises it. This does not make the doors cycle once per arrival: see
  \<open>door_retriggered\<close>.
\<close>

theorem sequencer_cycle:
  assumes "reachable pc s"
  shows "(animation_phase s = 0 \<or> animation_phase s = 1 \<or> animation_phase s = 2)
     \<and> (animation_phase (ISR s) = animation_phase s
         \<or> animation_phase (ISR s) = next_phase (animation_phase s))
     \<and> animation_phase (move_block inp s) = animation_phase s
     \<and> animation_phase (dispatch_block inp s) = animation_phase s
     \<and> animation_phase (boarding_block s) = animation_phase s
     \<and> (elevator_door_open s \<longleftrightarrow>
          (animation_phase s = 1 \<and> 1 \<le> animation_timer s)
          \<or> (animation_phase s = 2 \<and> animation_timer s = 0))
     \<and> (animation_phase s = 1 \<or> animation_phase s = 2 \<longrightarrow>
          trigger s = s \<and> dispatch_block inp s = s)"
proof -
  from assms have ok: "sequencer_ok s" by (simp add: reachable_ok)
  then have ph: "animation_phase s = 0 \<or> animation_phase s = 1 \<or> animation_phase s = 2"
    by (simp add: sequencer_ok_def)
  then have cyc: "animation_phase (ISR s) = animation_phase s
         \<or> animation_phase (ISR s) = next_phase (animation_phase s)"
    by (auto simp: ISR_phase next_phase_def)
  from ok have door: "elevator_door_open s \<longleftrightarrow>
          (animation_phase s = 1 \<and> 1 \<le> animation_timer s)
          \<or> (animation_phase s = 2 \<and> animation_timer s = 0)"
    by (simp add: sequencer_ok_def)
  have trig: "trigger s = s \<and> dispatch_block inp s = s"
    if "animation_phase s = 1 \<or> animation_phase s = 2"
  proof -
    from that ok have "floor_just_reached s" by (auto simp: sequencer_ok_def)
    then show ?thesis by (simp add: trigger_def dispatch_block_busy)
  qed
  from ph cyc door trig show ?thesis by simp
qed

theorem sequencer_cycle_witness:
  "reachable AtBoarding (ISR opening_entry)
   \<and> animation_phase (ISR opening_entry) = 1
   \<and> elevator_door_open (ISR opening_entry)
   \<and> trigger (ISR opening_entry) = ISR opening_entry"
proof -
  have r: "reachable AtBoarding (ISR opening_entry)"
    by (rule reachable.tick) (rule reachable_opening_entry)
  have "seq_at 1 (0 + 1) (ISR opening_entry)"
    by (rule seq_at_tick) (simp_all add: seq_at_opening_entry)
  then have "animation_phase (ISR opening_entry) = 1" "animation_timer (ISR opening_entry) = 1"
    by (simp_all add: seq_at_def word_unat_eq_iff)
  with r sequencer_cycle [OF r] show ?thesis by simp
qed

text \<open>
  C5, as amended. When the doors are triggered while the sequencer is idle (phase 0,
  tick counter 0), the sequencer does not enter the opening phase at the trigger: it
  stays in phase 0 with the doors closed while the tick counter counts the next 799
  interrupts, whatever the main loop does in between, and the 800th interrupt after the
  trigger moves it to the opening phase and resets the tick counter.
\<close>

theorem idle_delay:
  assumes "reachable pc s" and "animation_phase s = 0" and "animation_timer s = 0"
    and "floor_just_reached s"
  shows "(tick_count evs < 800 \<longrightarrow>
            animation_phase (run evs s) = 0
            \<and> unat (animation_timer (run evs s)) = tick_count evs
            \<and> \<not> elevator_door_open (run evs s))
       \<and> (tick_count evs = 799 \<longrightarrow>
            animation_phase (run (evs @ [Tick]) s) = 1
            \<and> animation_timer (run (evs @ [Tick]) s) = 0)"
proof -
  from assms(2-4) have at: "seq_at 0 0 s" by (simp add: seq_at_def)
  from assms(1) have "sequencer_ok s" by (simp add: reachable_ok)
  then have ok: "sequencer_ok (run evs s)" by (rule sequencer_ok_run)
  have counting: "animation_phase (run evs s) = 0
            \<and> unat (animation_timer (run evs s)) = tick_count evs
            \<and> \<not> elevator_door_open (run evs s)" if "tick_count evs < 800"
  proof -
    from at that have "seq_at 0 (0 + tick_count evs) (run evs s)"
      by (intro seq_at_run) simp_all
    with ok show ?thesis by (auto simp: seq_at_def sequencer_ok_def)
  qed
  have entering: "animation_phase (run (evs @ [Tick]) s) = 1
            \<and> animation_timer (run (evs @ [Tick]) s) = 0" if "tick_count evs = 799"
  proof -
    from at that have "seq_at (0 + 1) 0 (run (evs @ [Tick]) s)"
      by (intro seq_at_phase) simp_all
    then show ?thesis by (simp add: seq_at_def word_unat_eq_iff)
  qed
  from counting entering show ?thesis by blast
qed

theorem idle_delay_witness:
  "animation_phase (run (replicate 799 Tick) called_at_floor_0) = 0
   \<and> unat (animation_timer (run (replicate 799 Tick) called_at_floor_0)) = 799
   \<and> \<not> elevator_door_open (run (replicate 799 Tick) called_at_floor_0)
   \<and> animation_phase (run (replicate 799 Tick @ [Tick]) called_at_floor_0) = 1
   \<and> animation_timer (run (replicate 799 Tick @ [Tick]) called_at_floor_0) = 0"
  using idle_delay [OF reachable_called_at_floor_0, of "replicate 799 Tick"]
    seq_at_called_at_floor_0
  by (simp add: seq_at_def unsigned_eq_0_iff)

text \<open>
  C5 as stated fails: in \<open>called_at_floor_0\<close> the doors have just been triggered with the
  sequencer idle, yet one interrupt later the phase is still 0 and the tick counter is
  1, and 799 interrupts later the phase is still 0.
\<close>

theorem trigger_does_not_open:
  "animation_phase (initial_state 0) = 0 \<and> \<not> floor_just_reached (initial_state 0)
   \<and> floor_just_reached called_at_floor_0
   \<and> animation_phase (run [Tick] called_at_floor_0) = 0
   \<and> animation_timer (run [Tick] called_at_floor_0) = 1
   \<and> animation_phase (run (replicate 799 Tick) called_at_floor_0) = 0"
proof -
  have "seq_at 0 (0 + tick_count [Tick]) (run [Tick] called_at_floor_0)"
    by (rule seq_at_run) (simp_all add: seq_at_called_at_floor_0)
  moreover have "seq_at 0 (0 + tick_count (replicate 799 Tick))
      (run (replicate 799 Tick) called_at_floor_0)"
    by (rule seq_at_run) (simp_all add: seq_at_called_at_floor_0)
  ultimately show ?thesis
    using seq_at_called_at_floor_0
    by (simp add: seq_at_def word_unat_eq_iff initial_state_def)
qed

text \<open>
  C6, as amended. From the state in which the opening phase is entered, whatever the
  main loop does between the interrupts: the 500 Hz tone sounds from tick 1 of the phase
  to tick 99, it is stopped at tick 100 (50 ms, an eighth of the phase) and the buzzer
  is silent from then on, the phase stays 1 up to tick 799, and the 800th interrupt
  moves the sequencer to the closing phase with the tick counter reset.
\<close>

theorem opening_phase_tone:
  assumes "reachable pc s" and "animation_phase s = 1" and "animation_timer s = 0"
  shows "(1 \<le> tick_count evs \<and> tick_count evs < 100 \<longrightarrow> tone_500Hz (run evs s))
       \<and> (100 \<le> tick_count evs \<and> tick_count evs < 800 \<longrightarrow> silent (run evs s))
       \<and> (tick_count evs < 800 \<longrightarrow> animation_phase (run evs s) = 1)
       \<and> (tick_count evs = 799 \<longrightarrow>
            animation_phase (run (evs @ [Tick]) s) = 2
            \<and> animation_timer (run (evs @ [Tick]) s) = 0
            \<and> silent (run (evs @ [Tick]) s))"
proof -
  from assms(1) have "sequencer_ok s" by (simp add: reachable_ok)
  with assms(2,3) have at: "seq_at 1 0 s"
    by (simp add: seq_at_def sequencer_ok_def)
  from assms(1,2) have "button_idle s" by (simp add: reachable_button_idle)
  then have snd: "opening_sound 0 s" by (rule opening_entry_sound)
  have during: "seq_at 1 (tick_count evs) (run evs s) \<and> opening_sound (tick_count evs) (run evs s)"
    if "tick_count evs < 800"
    using opening_run [OF at snd, of evs] that by simp
  have last: "animation_phase (run (evs @ [Tick]) s) = 2
            \<and> animation_timer (run (evs @ [Tick]) s) = 0
            \<and> silent (run (evs @ [Tick]) s)" if "tick_count evs = 799"
  proof -
    from that during have a: "seq_at 1 799 (run evs s)" and b: "opening_sound 799 (run evs s)"
      by simp_all
    from a have "seq_at (1 + 1) 0 (ISR (run evs s))" by (rule seq_at_next) simp
    moreover from a b have "opening_sound (799 + 1) (ISR (run evs s))"
      by (rule opening_sound_tick) simp
    ultimately show ?thesis
      by (simp add: run_append seq_at_def opening_sound_def word_unat_eq_iff)
  qed
  from during last show ?thesis
    by (auto simp: seq_at_def opening_sound_def)
qed

theorem opening_phase_tone_witness:
  "reachable AtBoarding opening_entry
   \<and> animation_phase opening_entry = 1 \<and> animation_timer opening_entry = 0
   \<and> tone_500Hz (run (replicate 99 Tick) opening_entry)
   \<and> silent (run (replicate 100 Tick) opening_entry)
   \<and> animation_phase (run (replicate 799 Tick) opening_entry) = 1
   \<and> animation_phase (run (replicate 799 Tick @ [Tick]) opening_entry) = 2"
proof -
  have e: "animation_phase opening_entry = 1" "animation_timer opening_entry = 0"
    using seq_at_opening_entry by (simp_all add: seq_at_def word_unat_eq_iff)
  note t = opening_phase_tone [OF reachable_opening_entry e]
  from t [of "replicate 99 Tick"] t [of "replicate 100 Tick"] t [of "replicate 799 Tick"]
    reachable_opening_entry e
  show ?thesis by simp
qed

text \<open>
  C6 as stated fails: the tone is not stopped at tick 400 of the opening phase. It
  sounds at tick 99, is silent at tick 100, and is still silent at tick 399, with the
  sequencer in the opening phase all along.
\<close>

theorem tone_stops_at_tick_100:
  "animation_phase opening_entry = 1 \<and> animation_timer opening_entry = 0
   \<and> tone_500Hz (run (replicate 99 Tick) opening_entry)
   \<and> silent (run (replicate 100 Tick) opening_entry)
   \<and> animation_phase (run (replicate 100 Tick) opening_entry) = 1
   \<and> silent (run (replicate 399 Tick) opening_entry)
   \<and> animation_phase (run (replicate 399 Tick) opening_entry) = 1
   \<and> \<not> tone_500Hz (run (replicate 399 Tick) opening_entry)"
proof -
  have "button_idle opening_entry"
    using reachable_opening_entry seq_at_opening_entry
    by (intro reachable_button_idle) (simp_all add: seq_at_def)
  then have snd: "opening_sound 0 opening_entry" by (rule opening_entry_sound)
  note r = opening_run [OF seq_at_opening_entry snd]
  from r [of "replicate 99 Tick"] r [of "replicate 100 Tick"] r [of "replicate 399 Tick"]
    seq_at_opening_entry
  show ?thesis
    by (simp add: seq_at_def opening_sound_def word_unat_eq_iff silent_def tone_500Hz_def)
qed

section \<open>Pick-up and drop-off\<close>

lemma time_since_move_frame [simp]:
  "time_since_move (update_square_colour x y c s) = time_since_move s"
  "time_since_move (draw_row y c s) = time_since_move s"
  "time_since_move (display_information s) = time_since_move s"
  "time_since_move (trigger s) = time_since_move s"
  "time_since_move (handle_displays s) = time_since_move s"
  "time_since_move (place_traveller fc inp i s) = time_since_move s"
  "time_since_move (boarding_block s) = time_since_move s"
  "time_since_move (stop_sound s) = time_since_move s"
  "time_since_move (start_3kHz_sound s) = time_since_move s"
  "time_since_move (start_500Hz_sound s) = time_since_move s"
  "time_since_move (handle_seven_seg d s) = time_since_move s"
  by (simp_all add: update_square_colour_def draw_row_def display_information_def trigger_def
      handle_displays_def place_traveller_def boarding_block_def stop_sound_def
      start_3kHz_sound_def start_500Hz_sound_def handle_seven_seg_def Let_def)

lemma time_since_move_handle_inputs [simp]:
  "time_since_move (handle_inputs fc inp s) = time_since_move s"
  by (simp add: handle_inputs_def)

lemma time_since_move_pickup [simp]:
  "time_since_move (set_pickup_destination fc s) = time_since_move s"
  "time_since_move (begin_pickup s) = time_since_move s"
  "time_since_move (drop_off s) = time_since_move s"
  by (simp_all add: set_pickup_destination_def begin_pickup_def drop_off_def)

lemma time_since_move_dispatch [simp]:
  "time_since_move (dispatch_block inp s) = time_since_move s"
  by (simp add: dispatch_block_def Let_def)

lemma time_since_move_isr [simp]:
  "time_since_move (isr_timers s) = time_since_move s"
  "time_since_move (isr_animation s) = time_since_move s"
  by (simp_all add: isr_timers_def isr_animation_def Let_def)

lemma time_since_move_ISR [simp]: "time_since_move (ISR s) = time_since_move s"
  by (simp add: ISR_def Let_def)

lemma time_since_move_move:
  "time_since_move (move_block inp s) =
     (if move_due inp s then time_reset inp else time_since_move s)"
  by (simp add: move_block_def Let_def draw_elevator_def)

lemma dispatch_block_idle:
  "\<not> floor_just_reached s \<Longrightarrow>
   dispatch_block inp s =
     drop_off (begin_pickup (handle_displays
       (set_pickup_destination (floor_choice_of inp)
         (handle_inputs (floor_choice_of inp) inp s))))"
  by (simp add: dispatch_block_def Let_def)

text \<open>The dispatch block with a traveller active: the request handler does nothing.\<close>

lemma dispatch_block_active:
  assumes "\<not> floor_just_reached s" and "traveller_active s"
  shows "destination (dispatch_block inp s) =
           (if traveller_floor s = current_position s then uint (floor_choice_of inp) * 4
            else destination s)"
    and "traveller_floor (dispatch_block inp s) = traveller_floor s"
    and "floor_just_reached (dispatch_block inp s) \<longleftrightarrow>
           traveller_floor s = current_position s
           \<or> (traveller_onboard s \<and> current_position s = destination (dispatch_block inp s))"
    and "traveller_onboard (dispatch_block inp s) \<longleftrightarrow>
           traveller_onboard s \<and> current_position s \<noteq> destination (dispatch_block inp s)"
    and "traveller_active (dispatch_block inp s) \<longleftrightarrow>
           \<not> (traveller_onboard s \<and> current_position s = destination (dispatch_block inp s))"
proof -
  from assms(2) have hi: "handle_inputs (floor_choice_of inp) inp s = s"
    by (simp add: handle_inputs_rejected)
  note d = dispatch_block_idle [OF assms(1), of inp, unfolded hi]
  have dest: "destination (set_pickup_destination (floor_choice_of inp) s) =
           (if traveller_floor s = current_position s then uint (floor_choice_of inp) * 4
            else destination s)"
    using assms(2) by (simp add: set_pickup_destination_def)
  show 1: "destination (dispatch_block inp s) =
           (if traveller_floor s = current_position s then uint (floor_choice_of inp) * 4
            else destination s)"
    by (simp add: d dest)
  show "traveller_floor (dispatch_block inp s) = traveller_floor s"
    by (simp add: d)
  have fjr3: "floor_just_reached (begin_pickup (handle_displays
       (set_pickup_destination (floor_choice_of inp) s))) \<longleftrightarrow>
         traveller_floor s = current_position s"
    using assms by (simp add: begin_pickup_def)
  show "floor_just_reached (dispatch_block inp s) \<longleftrightarrow>
           traveller_floor s = current_position s
           \<or> (traveller_onboard s \<and> current_position s = destination (dispatch_block inp s))"
    unfolding 1 by (simp add: d drop_off_def fjr3 dest)
  show "traveller_onboard (dispatch_block inp s) \<longleftrightarrow>
           traveller_onboard s \<and> current_position s \<noteq> destination (dispatch_block inp s)"
    unfolding 1 by (auto simp: d drop_off_def dest)
  show "traveller_active (dispatch_block inp s) \<longleftrightarrow>
           \<not> (traveller_onboard s \<and> current_position s = destination (dispatch_block inp s))"
    unfolding 1 using assms(2) by (auto simp: d drop_off_def dest)
qed

text \<open>Drop-off, whatever the request handler did before it in the block.\<close>

lemma dispatch_block_dropoff:
  assumes "\<not> floor_just_reached s" and "traveller_onboard s"
    and "current_position s = destination (dispatch_block inp s)"
  shows "floor_just_reached (dispatch_block inp s)
     \<and> \<not> traveller_onboard (dispatch_block inp s)
     \<and> \<not> traveller_active (dispatch_block inp s)"
proof -
  define s4 where "s4 = begin_pickup (handle_displays
       (set_pickup_destination (floor_choice_of inp)
         (handle_inputs (floor_choice_of inp) inp s)))"
  have d: "dispatch_block inp s = drop_off s4"
    using assms(1) by (simp add: dispatch_block_idle s4_def)
  have on: "traveller_onboard s4 = traveller_onboard s"
    and pos: "current_position s4 = current_position s"
    by (simp_all add: s4_def)
  have "destination (dispatch_block inp s) = destination s4"
    by (simp add: d)
  with assms(2,3) on pos have "traveller_onboard s4 \<and> current_position s4 = destination s4"
    by simp
  then show ?thesis by (simp add: d drop_off_def)
qed

lemma floor_choice_of_64: "floor_choice_of (inputs_at t 64 b ser) = 2"
  by (simp add: floor_choice_of_at)

lemma floor_choice_of_32: "floor_choice_of (inputs_at t 32 b ser) = 1"
  by (simp add: floor_choice_of_at)

lemma floor_choice_of_0: "floor_choice_of (inputs_at t 0 b ser) = 0"
  by (simp add: floor_choice_of_at)

lemma boarding_block_closed: "\<not> elevator_door_open s \<Longrightarrow> boarding_block s = s"
  by (simp add: boarding_block_def)

lemma boarding_block_onboard:
  "traveller_onboard (boarding_block s) \<longleftrightarrow>
     traveller_onboard s
     \<or> (traveller_active s \<and> traveller_floor s = current_position s \<and> elevator_door_open s)"
  by (auto simp: boarding_block_def)

lemma travelling_iteration:
  assumes tr: "travelling onb tf p d t s" and up: "p < d"
    and nf: "p + 1 \<noteq> tf" and nd: "onb \<longrightarrow> p + 1 \<noteq> d"
    and due: "125 < t' - t" and slow: "pinc AND 128 = 0"
  shows "travelling onb tf (p + 1) d t' (main_loop_iteration (inputs_at t' pinc 255 None) s)"
proof -
  let ?inp = "inputs_at t' pinc 255 None"
  define m where "m = move_block ?inp s"
  from tr due slow have md: "move_due ?inp s"
    by (simp add: move_due_at travelling_def)
  have m: "current_position m = p + 1" "destination m = d" "time_since_move m = t'"
    "traveller_active m" "traveller_onboard m = onb" "traveller_floor m = tf"
    "\<not> floor_just_reached m" "\<not> elevator_door_open m"
    using tr up md
    by (simp_all add: m_def move_block_position time_since_move_move travelling_def inputs_at_def)
  note da = dispatch_block_active [of m ?inp, OF m(7) m(4)]
  have dest: "destination (dispatch_block ?inp m) = d"
    using m nf by (simp add: da(1))
  have "travelling onb tf (p + 1) d t' (dispatch_block ?inp m)"
    unfolding travelling_def
    using m nf nd dest by (auto simp: da(2-5))
  moreover from this have "boarding_block (dispatch_block ?inp m) = dispatch_block ?inp m"
    by (intro boarding_block_closed) (simp add: travelling_def)
  ultimately show ?thesis
    by (simp add: main_loop_iteration_def m_def)
qed

lemma travelling_called_at_floor_1: "travelling False 4 0 4 0 called_at_floor_1"
  by (simp add: called_at_floor_1_eq travelling_def initial_state_def FLOOR_0_def)

lemma travelling_below_floor_1: "travelling False 4 3 4 600 below_floor_1"
proof -
  note a = travelling_called_at_floor_1
  have b: "travelling False 4 (0 + 1) 4 200 (main_loop_iteration (inputs_at 200 0 255 None) called_at_floor_1)"
    using a by (rule travelling_iteration) simp_all
  have c: "travelling False 4 (1 + 1) 4 400
      (main_loop_iteration (inputs_at 400 0 255 None)
        (main_loop_iteration (inputs_at 200 0 255 None) called_at_floor_1))"
    using b [simplified] by (rule travelling_iteration) simp_all
  have d: "travelling False 4 (2 + 1) 4 600
      (main_loop_iteration (inputs_at 600 0 255 None)
        (main_loop_iteration (inputs_at 400 0 255 None)
          (main_loop_iteration (inputs_at 200 0 255 None) called_at_floor_1)))"
    using c [simplified] by (rule travelling_iteration) simp_all
  then show ?thesis by (simp add: below_floor_1_def)
qed

text \<open>
  What lines 271-281 do. In a main-loop iteration that finds no door animation in
  progress (\<^verbatim>\<open>floor_just_reached\<close> false), with a traveller active and not on board, and
  the car, after the iteration's movement step, at the traveller's origin: the door
  sequencer is triggered, and \<^verbatim>\<open>destination\<close> is set from the switches as this iteration
  reads them, not from the floor they selected when the request was accepted, which no
  variable keeps.
\<close>

lemma pickup_arrival:
  assumes "\<not> floor_just_reached s" and "traveller_active s" and "\<not> traveller_onboard s"
    and "current_position (move_block inp s) = traveller_floor s"
  shows "destination (main_loop_iteration inp s) = uint (floor_choice_of inp) * 4
     \<and> floor_just_reached (main_loop_iteration inp s)"
proof -
  define m where "m = move_block inp s"
  from assms have m: "\<not> floor_just_reached m" "traveller_active m"
    "traveller_floor m = current_position m"
    by (simp_all add: m_def)
  note da = dispatch_block_active [OF m(1,2), of inp]
  from m(3) have "destination (dispatch_block inp m) = uint (floor_choice_of inp) * 4"
    "floor_just_reached (dispatch_block inp m)"
    by (simp_all add: da)
  then show ?thesis
    by (simp add: main_loop_iteration_def m_def)
qed

lemma pickup_arrival_witness:
  "\<not> floor_just_reached below_floor_1 \<and> traveller_active below_floor_1
   \<and> \<not> traveller_onboard below_floor_1
   \<and> current_position (move_block (inputs_at 800 64 255 None) below_floor_1)
       = traveller_floor below_floor_1
   \<and> destination (main_loop_iteration (inputs_at 800 64 255 None) below_floor_1) = 8
   \<and> floor_just_reached (main_loop_iteration (inputs_at 800 64 255 None) below_floor_1)"
  using pickup_arrival [of below_floor_1 "inputs_at 800 64 255 None"] travelling_below_floor_1
  by (simp add: travelling_def move_block_position move_due_at floor_choice_of_64)

text \<open>
  C7. The code does not do what C7 asks. The request of \<open>called_at_floor_1\<close> was
  accepted with the switches on floor 0: the traveller asked for floor 0 and is drawn in
  the colour of floor 0 (line 431; the comment at line 426 calls \<^verbatim>\<open>floor_choice\<close> the
  floor the traveller wants to go). When the car arrives at the traveller's floor the switches
  are on floor 2, and line 272 sets \<^verbatim>\<open>destination\<close> to 8, the coordinate of floor 2,
  not to 0.
\<close>

theorem destination_follows_switches:
  "floor_choice_of (inputs_at 0 0 1 None) = 0
   \<and> matrix called_at_floor_1 = [(5, 5, TRAVELLER_TO_0)]
   \<and> traveller_active below_floor_1 \<and> \<not> traveller_onboard below_floor_1
   \<and> current_position (move_block (inputs_at 800 64 255 None) below_floor_1)
       = traveller_floor below_floor_1
   \<and> destination (main_loop_iteration (inputs_at 800 64 255 None) below_floor_1) = 8"
proof -
  let ?inp = "inputs_at 800 64 255 None"
  define m where "m = move_block ?inp below_floor_1"
  note tr = travelling_below_floor_1
  then have md: "move_due ?inp below_floor_1"
    by (simp add: move_due_at travelling_def)
  with tr have m: "\<not> floor_just_reached m" "traveller_active m" "current_position m = 4"
    "traveller_floor m = 4"
    by (simp_all add: m_def move_block_position travelling_def)
  note da = dispatch_block_active [OF m(1,2), of ?inp]
  from m have "destination (dispatch_block ?inp m) = 8"
    by (simp add: da floor_choice_of_64)
  then have "destination (main_loop_iteration ?inp below_floor_1) = 8"
    by (simp add: main_loop_iteration_def m_def)
  with tr m show ?thesis
    by (simp add: travelling_def floor_choice_of_0 called_at_floor_1_eq m_def)
qed

theorem destination_follows_switches_witness:
  "destination (main_loop_iteration (inputs_at 800 64 255 None) below_floor_1) = 8
   \<and> floor_choice_of (inputs_at 0 0 1 None) = 0"
  using destination_follows_switches by (intro conjI) (elim conjE, assumption)+

lemma run_ticks_car:
  "traveller_active (run (replicate n Tick) s) = traveller_active s
   \<and> traveller_onboard (run (replicate n Tick) s) = traveller_onboard s
   \<and> traveller_floor (run (replicate n Tick) s) = traveller_floor s
   \<and> current_position (run (replicate n Tick) s) = current_position s
   \<and> destination (run (replicate n Tick) s) = destination s
   \<and> time_since_move (run (replicate n Tick) s) = time_since_move s"
  by (induction n arbitrary: s) simp_all

lemma run_ticks_1599:
  "run (replicate 1599 Tick) s = ISR (run (replicate 799 Tick) (ISR (run (replicate 798 Tick) s)))"
proof -
  have "run (replicate (798 + 1 + 799 + 1) Tick) s =
      run (replicate 1 Tick) (run (replicate 799 Tick)
        (run (replicate 1 Tick) (run (replicate 798 Tick) s)))"
    by (simp only: run_ticks_add)
  then show ?thesis by simp
qed

lemma animation_completes:
  assumes "seq_at 1 1 s"
  shows "animation_phase (run (replicate 1599 Tick) s) = 0
     \<and> animation_timer (run (replicate 1599 Tick) s) = 0
     \<and> \<not> floor_just_reached (run (replicate 1599 Tick) s)"
proof -
  have "seq_at 1 (1 + tick_count (replicate 798 Tick)) (run (replicate 798 Tick) s)"
    using assms by (rule seq_at_run) simp
  then have "seq_at 1 799 (run (replicate 798 Tick) s)" by simp
  then have "seq_at (1 + 1) 0 (ISR (run (replicate 798 Tick) s))"
    by (rule seq_at_next) simp
  then have "seq_at 2 (0 + tick_count (replicate 799 Tick))
      (run (replicate 799 Tick) (ISR (run (replicate 798 Tick) s)))"
    by (intro seq_at_run) simp_all
  then have e: "seq_at 2 799 (run (replicate 799 Tick) (ISR (run (replicate 798 Tick) s)))"
    by simp
  show ?thesis
    using seq_at_end [OF e] by (simp add: run_ticks_1599)
qed

lemma reachable_iteration:
  "reachable AtMove s \<Longrightarrow> reachable AtMove (main_loop_iteration inp s)"
  unfolding main_loop_iteration_def
  by (intro reachable.boarding reachable.dispatch reachable.move)

lemma reachable_boarded: "reachable AtMove boarded"
  unfolding boarded_def
  by (intro reachable.boarding reachable.tick reachable_opening_entry)

lemma reachable_pickup_done: "reachable AtMove pickup_done"
  unfolding pickup_done_def by (intro reachable_ticks reachable_boarded)

lemma reachable_at_destination: "reachable AtDispatch at_destination"
  unfolding at_destination_def near_destination_def
  by (simp add: reachable.move reachable_iteration reachable_pickup_done)

lemma car_called_at_floor_0:
  "traveller_active called_at_floor_0" "\<not> traveller_onboard called_at_floor_0"
  "traveller_floor called_at_floor_0 = 0" "current_position called_at_floor_0 = 0"
  "destination called_at_floor_0 = 4" "time_since_move called_at_floor_0 = 0"
  by (simp_all add: called_at_floor_0_eq initial_state_def FLOOR_0_def)

lemma car_opening_entry:
  "traveller_active opening_entry" "\<not> traveller_onboard opening_entry"
  "traveller_floor opening_entry = 0" "current_position opening_entry = 0"
  "destination opening_entry = 4" "time_since_move opening_entry = 0"
  using run_ticks_car [of 800 called_at_floor_0]
  by (simp_all add: opening_entry_def car_called_at_floor_0)

lemma seq_at_boarded: "seq_at 1 1 boarded"
proof -
  have "seq_at 1 (0 + 1) (ISR opening_entry)"
    by (rule seq_at_tick) (simp_all add: seq_at_opening_entry)
  then show ?thesis by (simp add: boarded_def seq_at_def)
qed

lemma car_boarded:
  "traveller_active boarded" "traveller_onboard boarded"
  "traveller_floor boarded = 0" "current_position boarded = 0"
  "destination boarded = 4" "time_since_move boarded = 0"
proof -
  have r: "reachable AtBoarding (ISR opening_entry)"
    by (intro reachable.tick reachable_opening_entry)
  have "seq_at 1 (0 + 1) (ISR opening_entry)"
    by (rule seq_at_tick) (simp_all add: seq_at_opening_entry)
  then have "animation_phase (ISR opening_entry) = 1" "animation_timer (ISR opening_entry) = 1"
    by (simp_all add: seq_at_def word_unat_eq_iff)
  with reachable_ok [OF r] have "elevator_door_open (ISR opening_entry)"
    by (simp add: sequencer_ok_def)
  then show "traveller_onboard boarded"
    by (simp add: boarded_def boarding_block_onboard car_opening_entry)
  show "traveller_active boarded" "traveller_floor boarded = 0" "current_position boarded = 0"
    "destination boarded = 4" "time_since_move boarded = 0"
    by (simp_all add: boarded_def car_opening_entry)
qed

lemma travelling_pickup_done: "travelling True 0 0 4 0 pickup_done"
proof -
  note a = animation_completes [OF seq_at_boarded]
  from reachable_ok [OF reachable_pickup_done] a
  have "\<not> elevator_door_open pickup_done"
    by (simp add: sequencer_ok_def pickup_done_def)
  with a show ?thesis
    using run_ticks_car [of 1599 boarded]
    by (simp add: travelling_def pickup_done_def car_boarded)
qed

lemma travelling_near_destination: "travelling True 0 3 4 1600 near_destination"
proof -
  note a = travelling_pickup_done
  have b: "travelling True 0 (0 + 1) 4 1200
      (main_loop_iteration (inputs_at 1200 32 255 None) pickup_done)"
    using a by (rule travelling_iteration) simp_all
  have c: "travelling True 0 (1 + 1) 4 1400
      (main_loop_iteration (inputs_at 1400 32 255 None)
        (main_loop_iteration (inputs_at 1200 32 255 None) pickup_done))"
    using b [simplified] by (rule travelling_iteration) simp_all
  have d: "travelling True 0 (2 + 1) 4 1600
      (main_loop_iteration (inputs_at 1600 32 255 None)
        (main_loop_iteration (inputs_at 1400 32 255 None)
          (main_loop_iteration (inputs_at 1200 32 255 None) pickup_done)))"
    using c [simplified] by (rule travelling_iteration) simp_all
  then show ?thesis by (simp add: near_destination_def)
qed

lemma car_at_destination:
  "\<not> floor_just_reached at_destination" "traveller_active at_destination"
  "traveller_onboard at_destination" "traveller_floor at_destination = 0"
  "current_position at_destination = 4" "destination at_destination = 4"
proof -
  note tr = travelling_near_destination
  then have "move_due (inputs_at 1800 32 255 None) near_destination"
    by (simp add: move_due_at travelling_def)
  with tr show "\<not> floor_just_reached at_destination" "traveller_active at_destination"
    "traveller_onboard at_destination" "traveller_floor at_destination = 0"
    "current_position at_destination = 4" "destination at_destination = 4"
    by (simp_all add: at_destination_def move_block_position travelling_def)
qed

text \<open>
  C9, as amended. Drop-off sets \<^verbatim>\<open>floor_just_reached\<close> and clears \<^verbatim>\<open>traveller_onboard\<close> and
  \<^verbatim>\<open>traveller_active\<close> in the same block, at trigger time. All the same no request is
  accepted while a door animation plays: in every reachable state with
  \<^verbatim>\<open>floor_just_reached\<close> set or the phase not 0, the block that calls the request handler
  changes nothing; and whenever that block creates a traveller, \<^verbatim>\<open>floor_just_reached\<close> is
  false, the sequencer is in phase 0 with its tick counter 0, and the doors are closed.
\<close>

theorem request_needs_idle_sequencer:
  assumes "reachable pc s"
  shows "(floor_just_reached s \<or> animation_phase s \<noteq> 0 \<longrightarrow> dispatch_block inp s = s)
     \<and> (\<not> traveller_active s \<and> traveller_active (dispatch_block inp s) \<longrightarrow>
          \<not> floor_just_reached s \<and> animation_phase s = 0 \<and> animation_timer s = 0
          \<and> \<not> elevator_door_open s)
     \<and> (\<not> floor_just_reached s \<and> traveller_onboard s
          \<and> current_position s = destination (dispatch_block inp s) \<longrightarrow>
          floor_just_reached (dispatch_block inp s)
          \<and> \<not> traveller_onboard (dispatch_block inp s)
          \<and> \<not> traveller_active (dispatch_block inp s))"
proof -
  from assms have ok: "sequencer_ok s" by (simp add: reachable_ok)
  have busy: "dispatch_block inp s = s" if "floor_just_reached s \<or> animation_phase s \<noteq> 0"
  proof -
    from that ok have "floor_just_reached s" by (auto simp: sequencer_ok_def)
    then show ?thesis by (rule dispatch_block_busy)
  qed
  have idle: "\<not> floor_just_reached s \<and> animation_phase s = 0 \<and> animation_timer s = 0
          \<and> \<not> elevator_door_open s"
    if "\<not> traveller_active s \<and> traveller_active (dispatch_block inp s)"
  proof -
    have "\<not> floor_just_reached s"
    proof
      assume "floor_just_reached s"
      then have "dispatch_block inp s = s" by (rule dispatch_block_busy)
      with that show False by simp
    qed
    with ok show ?thesis by (auto simp: sequencer_ok_def)
  qed
  have drop: "floor_just_reached (dispatch_block inp s)
          \<and> \<not> traveller_onboard (dispatch_block inp s)
          \<and> \<not> traveller_active (dispatch_block inp s)"
    if "\<not> floor_just_reached s \<and> traveller_onboard s
          \<and> current_position s = destination (dispatch_block inp s)"
    using that by (intro dispatch_block_dropoff) simp_all
  have 1: "floor_just_reached s \<or> animation_phase s \<noteq> 0 \<longrightarrow> dispatch_block inp s = s"
    by (rule impI) (rule busy)
  have 2: "\<not> traveller_active s \<and> traveller_active (dispatch_block inp s) \<longrightarrow>
          \<not> floor_just_reached s \<and> animation_phase s = 0 \<and> animation_timer s = 0
          \<and> \<not> elevator_door_open s"
    by (rule impI) (rule idle)
  have 3: "\<not> floor_just_reached s \<and> traveller_onboard s
          \<and> current_position s = destination (dispatch_block inp s) \<longrightarrow>
          floor_just_reached (dispatch_block inp s)
          \<and> \<not> traveller_onboard (dispatch_block inp s)
          \<and> \<not> traveller_active (dispatch_block inp s)"
    by (rule impI) (rule drop)
  from 1 2 3 show ?thesis by (intro conjI)
qed

theorem request_needs_idle_sequencer_witness:
  "floor_just_reached called_at_floor_0
   \<and> dispatch_block (inputs_at 0 0 1 None) called_at_floor_0 = called_at_floor_0
   \<and> \<not> traveller_active (initial_state 0)
   \<and> traveller_active (dispatch_block (inputs_at 0 32 0 None) (initial_state 0))
   \<and> animation_phase (initial_state 0) = 0
   \<and> traveller_onboard at_destination
   \<and> floor_just_reached (dispatch_block (inputs_at 1800 32 255 None) at_destination)
   \<and> \<not> traveller_active (dispatch_block (inputs_at 1800 32 255 None) at_destination)"
proof -
  have busy: "floor_just_reached called_at_floor_0"
    using seq_at_called_at_floor_0 by (simp add: seq_at_def)
  have 1: "dispatch_block (inputs_at 0 0 1 None) called_at_floor_0 = called_at_floor_0"
    by (rule request_needs_idle_sequencer
          [OF reachable_called_at_floor_0, of "inputs_at 0 0 1 None",
            THEN conjunct1, THEN mp])
       (simp add: busy)
  have init: "\<not> traveller_active (initial_state 0)"
    by (simp add: initial_state_def)
  have acc: "traveller_active (dispatch_block (inputs_at 0 32 0 None) (initial_state 0))"
    using car_called_at_floor_0(1) by (simp only: called_at_floor_0_def)
  have "\<not> floor_just_reached (initial_state 0) \<and> animation_phase (initial_state 0) = 0
      \<and> animation_timer (initial_state 0) = 0 \<and> \<not> elevator_door_open (initial_state 0)"
    by (rule request_needs_idle_sequencer
          [OF reachable_at_dispatch_initial, of "inputs_at 0 32 0 None",
            THEN conjunct2, THEN conjunct1, THEN mp])
       (intro conjI init acc)
  then have 2: "animation_phase (initial_state 0) = 0"
    by (rule conjunct2 [THEN conjunct1])
  have dest: "destination (dispatch_block (inputs_at 1800 32 255 None) at_destination) = 4"
    using dispatch_block_active(1) [OF car_at_destination(1,2)]
    by (simp add: car_at_destination)
  have "floor_just_reached (dispatch_block (inputs_at 1800 32 255 None) at_destination)
      \<and> \<not> traveller_onboard (dispatch_block (inputs_at 1800 32 255 None) at_destination)
      \<and> \<not> traveller_active (dispatch_block (inputs_at 1800 32 255 None) at_destination)"
    by (rule request_needs_idle_sequencer
          [OF reachable_at_destination, of "inputs_at 1800 32 255 None",
            THEN conjunct2, THEN conjunct2, THEN mp])
       (simp add: car_at_destination dest)
  note d = this
  from d have 3: "floor_just_reached (dispatch_block (inputs_at 1800 32 255 None) at_destination)"
    by (rule conjunct1)
  from d have 4: "\<not> traveller_active (dispatch_block (inputs_at 1800 32 255 None) at_destination)"
    by (rule conjunct2 [THEN conjunct2])
  show ?thesis
    by (intro conjI busy 1 init acc 2 car_at_destination(3) 3 4)
qed

text \<open>
  C9 as stated fails: there is no reachable state with a door animation in progress
  (\<^verbatim>\<open>floor_just_reached\<close> set, or the phase not 0) in which the block that calls the
  request handler has any effect, so none in which it accepts a request.
\<close>

theorem no_request_during_animation:
  "\<not> (\<exists>pc s inp. reachable pc s \<and> (floor_just_reached s \<or> animation_phase s \<noteq> 0)
        \<and> dispatch_block inp s \<noteq> s)"
proof
  assume "\<exists>pc s inp. reachable pc s \<and> (floor_just_reached s \<or> animation_phase s \<noteq> 0)
        \<and> dispatch_block inp s \<noteq> s"
  then obtain pc s inp where r: "reachable pc s"
    and a: "floor_just_reached s \<or> animation_phase s \<noteq> 0"
    and d: "dispatch_block inp s \<noteq> s"
    by blast
  from r have "sequencer_ok s" by (simp add: reachable_ok)
  with a have "floor_just_reached s" by (auto simp: sequencer_ok_def)
  then have "dispatch_block inp s = s" by (rule dispatch_block_busy)
  with d show False by contradiction
qed

section \<open>The travel counters\<close>

lemma display_information_counters [simp]:
  "floors_w_traveller (display_information s) = floors_w_traveller s"
  "floors_no_traveller (display_information s) = floors_no_traveller s"
  "current_floor (display_information s) = current_floor s"
  "old_floor (display_information s) = old_floor s"
  "direction_change (display_information s) = direction_change s"
  by (simp_all add: display_information_def)

lemma on_a_floor_direction [simp]:
  "on_a_floor (s\<lparr>direction_change := x\<rparr>) = on_a_floor s"
  by (simp add: on_a_floor_def)

lemma handle_displays_floor:
  "current_floor (handle_displays s) =
     (if on_a_floor s then current_position s else current_floor s)"
  "old_floor (handle_displays s) = current_floor (handle_displays s)"
  by (simp_all add: handle_displays_def Let_def)

text \<open>
  A call of \<^verbatim>\<open>handle_displays\<close> that changes the sticky floor adds one, modulo 256, to
  exactly one counter: the one chosen by \<^verbatim>\<open>traveller_onboard\<close>. A call that does not
  change it leaves both alone.
\<close>

lemma handle_displays_counters:
  "floors_w_traveller (handle_displays s) =
     (if old_floor s \<noteq> current_floor (handle_displays s) \<and> traveller_onboard s
      then floors_w_traveller s + 1 else floors_w_traveller s)"
  "floors_no_traveller (handle_displays s) =
     (if old_floor s \<noteq> current_floor (handle_displays s) \<and> \<not> traveller_onboard s
      then floors_no_traveller s + 1 else floors_no_traveller s)"
  unfolding handle_displays_floor(1)
  by (simp_all add: handle_displays_def Let_def)

text \<open>The counters and the sticky floor are written by \<^verbatim>\<open>handle_displays\<close> alone.\<close>

lemma counters_frame [simp]:
  "current_floor (update_square_colour x y c s) = current_floor s"
  "old_floor (update_square_colour x y c s) = old_floor s"
  "floors_w_traveller (update_square_colour x y c s) = floors_w_traveller s"
  "floors_no_traveller (update_square_colour x y c s) = floors_no_traveller s"
  "current_floor (draw_row y c s) = current_floor s"
  "old_floor (draw_row y c s) = old_floor s"
  "floors_w_traveller (draw_row y c s) = floors_w_traveller s"
  "floors_no_traveller (draw_row y c s) = floors_no_traveller s"
  "current_floor (trigger s) = current_floor s"
  "old_floor (trigger s) = old_floor s"
  "floors_w_traveller (trigger s) = floors_w_traveller s"
  "floors_no_traveller (trigger s) = floors_no_traveller s"
  "current_floor (stop_sound s) = current_floor s"
  "old_floor (stop_sound s) = old_floor s"
  "floors_w_traveller (stop_sound s) = floors_w_traveller s"
  "floors_no_traveller (stop_sound s) = floors_no_traveller s"
  "current_floor (start_3kHz_sound s) = current_floor s"
  "old_floor (start_3kHz_sound s) = old_floor s"
  "floors_w_traveller (start_3kHz_sound s) = floors_w_traveller s"
  "floors_no_traveller (start_3kHz_sound s) = floors_no_traveller s"
  "current_floor (start_500Hz_sound s) = current_floor s"
  "old_floor (start_500Hz_sound s) = old_floor s"
  "floors_w_traveller (start_500Hz_sound s) = floors_w_traveller s"
  "floors_no_traveller (start_500Hz_sound s) = floors_no_traveller s"
  by (simp_all add: update_square_colour_def draw_row_def trigger_def stop_sound_def
      start_3kHz_sound_def start_500Hz_sound_def)

lemma counters_frame_loop [simp]:
  "current_floor (draw_elevator s) = current_floor s"
  "old_floor (draw_elevator s) = old_floor s"
  "floors_w_traveller (draw_elevator s) = floors_w_traveller s"
  "floors_no_traveller (draw_elevator s) = floors_no_traveller s"
  "current_floor (place_traveller fc inp i s) = current_floor s"
  "old_floor (place_traveller fc inp i s) = old_floor s"
  "floors_w_traveller (place_traveller fc inp i s) = floors_w_traveller s"
  "floors_no_traveller (place_traveller fc inp i s) = floors_no_traveller s"
  "current_floor (set_pickup_destination fc s) = current_floor s"
  "old_floor (set_pickup_destination fc s) = old_floor s"
  "floors_w_traveller (set_pickup_destination fc s) = floors_w_traveller s"
  "floors_no_traveller (set_pickup_destination fc s) = floors_no_traveller s"
  "current_floor (begin_pickup s) = current_floor s"
  "old_floor (begin_pickup s) = old_floor s"
  "floors_w_traveller (begin_pickup s) = floors_w_traveller s"
  "floors_no_traveller (begin_pickup s) = floors_no_traveller s"
  "current_floor (drop_off s) = current_floor s"
  "old_floor (drop_off s) = old_floor s"
  "floors_w_traveller (drop_off s) = floors_w_traveller s"
  "floors_no_traveller (drop_off s) = floors_no_traveller s"
  "current_floor (boarding_block s) = current_floor s"
  "old_floor (boarding_block s) = old_floor s"
  "floors_w_traveller (boarding_block s) = floors_w_traveller s"
  "floors_no_traveller (boarding_block s) = floors_no_traveller s"
  by (simp_all add: draw_elevator_def place_traveller_def set_pickup_destination_def
      begin_pickup_def drop_off_def boarding_block_def Let_def)

lemma counters_frame_move [simp]:
  "current_floor (move_block inp s) = current_floor s"
  "old_floor (move_block inp s) = old_floor s"
  "floors_w_traveller (move_block inp s) = floors_w_traveller s"
  "floors_no_traveller (move_block inp s) = floors_no_traveller s"
  "current_floor (handle_inputs fc inp s) = current_floor s"
  "old_floor (handle_inputs fc inp s) = old_floor s"
  "floors_w_traveller (handle_inputs fc inp s) = floors_w_traveller s"
  "floors_no_traveller (handle_inputs fc inp s) = floors_no_traveller s"
  by (simp_all add: move_block_def handle_inputs_def Let_def)

lemma counters_frame_isr [simp]:
  "current_floor (handle_seven_seg d s) = current_floor s"
  "old_floor (handle_seven_seg d s) = old_floor s"
  "floors_w_traveller (handle_seven_seg d s) = floors_w_traveller s"
  "floors_no_traveller (handle_seven_seg d s) = floors_no_traveller s"
  "current_floor (isr_timers s) = current_floor s"
  "old_floor (isr_timers s) = old_floor s"
  "floors_w_traveller (isr_timers s) = floors_w_traveller s"
  "floors_no_traveller (isr_timers s) = floors_no_traveller s"
  "current_floor (isr_animation s) = current_floor s"
  "old_floor (isr_animation s) = old_floor s"
  "floors_w_traveller (isr_animation s) = floors_w_traveller s"
  "floors_no_traveller (isr_animation s) = floors_no_traveller s"
  by (simp_all add: handle_seven_seg_def isr_timers_def isr_animation_def Let_def)

lemma counters_frame_ISR [simp]:
  "current_floor (ISR s) = current_floor s"
  "old_floor (ISR s) = old_floor s"
  "floors_w_traveller (ISR s) = floors_w_traveller s"
  "floors_no_traveller (ISR s) = floors_no_traveller s"
  by (simp_all add: ISR_def Let_def)

lemma car_ISR [simp]: "car act onb tf p d cf w n (ISR s) = car act onb tf p d cf w n s"
  by (simp add: car_def)

lemma car_ticks [simp]:
  "car act onb tf p d cf w n (run (replicate k Tick) s) = car act onb tf p d cf w n s"
  by (induction k arbitrary: s) simp_all

lemma on_a_floor_pickup [simp]:
  "on_a_floor (set_pickup_destination fc s) = on_a_floor s"
  by (simp add: on_a_floor_def)

lemma closed_when_idle:
  assumes "sequencer_ok s" "\<not> floor_just_reached s"
  shows "\<not> elevator_door_open s" "animation_phase s = 0" "animation_timer s = 0"
  using assms by (auto simp: sequencer_ok_def)

lemma dispatch_block_counters:
  assumes "\<not> floor_just_reached s" and "traveller_active s"
  shows "current_floor (dispatch_block inp s) =
           (if on_a_floor s then current_position s else current_floor s)"
    and "old_floor (dispatch_block inp s) = current_floor (dispatch_block inp s)"
    and "floors_w_traveller (dispatch_block inp s) =
           (if old_floor s \<noteq> current_floor (dispatch_block inp s) \<and> traveller_onboard s
            then floors_w_traveller s + 1 else floors_w_traveller s)"
    and "floors_no_traveller (dispatch_block inp s) =
           (if old_floor s \<noteq> current_floor (dispatch_block inp s) \<and> \<not> traveller_onboard s
            then floors_no_traveller s + 1 else floors_no_traveller s)"
proof -
  from assms(2) have hi: "handle_inputs (floor_choice_of inp) inp s = s"
    by (simp add: handle_inputs_rejected)
  note d = dispatch_block_idle [OF assms(1), of inp, unfolded hi]
  show 1: "current_floor (dispatch_block inp s) =
           (if on_a_floor s then current_position s else current_floor s)"
    by (simp add: d handle_displays_floor)
  show "old_floor (dispatch_block inp s) = current_floor (dispatch_block inp s)"
    by (simp add: d handle_displays_floor)
  show "floors_w_traveller (dispatch_block inp s) =
           (if old_floor s \<noteq> current_floor (dispatch_block inp s) \<and> traveller_onboard s
            then floors_w_traveller s + 1 else floors_w_traveller s)"
    unfolding 1 by (simp add: d handle_displays_counters handle_displays_floor)
  show "floors_no_traveller (dispatch_block inp s) =
           (if old_floor s \<noteq> current_floor (dispatch_block inp s) \<and> \<not> traveller_onboard s
            then floors_no_traveller s + 1 else floors_no_traveller s)"
    unfolding 1 by (simp add: d handle_displays_counters handle_displays_floor)
qed

lemma on_a_floor_iff:
  "on_a_floor s \<longleftrightarrow> current_position s = 0 \<or> current_position s = 4
     \<or> current_position s = 8 \<or> current_position s = 12"
  by (simp add: on_a_floor_def FLOOR_0_def FLOOR_1_def FLOOR_2_def FLOOR_3_def)

lemma dispatch_car:
  assumes ok: "sequencer_ok m" and idle: "\<not> floor_just_reached m"
    and car: "car True onb tf p d cf w n m"
    and p': "current_position m = p'"
    and d': "d' = (if tf = p' then uint (floor_choice_of inp) * 4 else d)"
    and cf': "cf' = (if p' = 0 \<or> p' = 4 \<or> p' = 8 \<or> p' = 12 then p' else cf)"
    and w': "w' = (if cf \<noteq> cf' \<and> onb then w + 1 else w)"
    and n': "n' = (if cf \<noteq> cf' \<and> \<not> onb then n + 1 else n)"
  shows "car (\<not> (onb \<and> p' = d')) (onb \<and> p' \<noteq> d') tf p' d' cf' w' n'
           (boarding_block (dispatch_block inp m))"
    and "floor_just_reached (boarding_block (dispatch_block inp m))
           \<longleftrightarrow> tf = p' \<or> (onb \<and> p' = d')"
    and "animation_phase (boarding_block (dispatch_block inp m)) = 0"
    and "animation_timer (boarding_block (dispatch_block inp m)) = 0"
proof -
  note cl = closed_when_idle [OF ok idle]
  have m: "current_position m = p'" "destination m = d"
    "traveller_active m" "traveller_onboard m = onb" "traveller_floor m = tf"
    "\<not> floor_just_reached m" "\<not> elevator_door_open m"
    "current_floor m = cf" "old_floor m = cf"
    "floors_w_traveller m = w" "floors_no_traveller m = n"
    "animation_phase m = 0" "animation_timer m = 0"
    using car idle cl p' by (simp_all add: car_def)
  note da = dispatch_block_active [of m inp, OF m(6) m(3)]
  note dc = dispatch_block_counters [of m inp, OF m(6) m(3)]
  define q where "q = dispatch_block inp m"
  have dest: "destination q = d'"
    using m by (simp add: da(1) d' q_def)
  have cfl: "current_floor q = cf'"
    using m by (simp add: dc(1) cf' on_a_floor_iff q_def)
  have q: "car (\<not> (onb \<and> p' = d')) (onb \<and> p' \<noteq> d') tf p' d' cf' w' n' q"
    unfolding car_def
    using m dest cfl da(2-5) dc(2-4) w' n'
    by (simp add: q_def)
  have door: "\<not> elevator_door_open q"
    using m by (simp add: q_def)
  then have b: "boarding_block q = q" by (rule boarding_block_closed)
  have it: "boarding_block (dispatch_block inp m) = q"
    using b by (simp add: q_def)
  show "car (\<not> (onb \<and> p' = d')) (onb \<and> p' \<noteq> d') tf p' d' cf' w' n'
           (boarding_block (dispatch_block inp m))"
    unfolding it by (rule q)
  show "floor_just_reached (boarding_block (dispatch_block inp m))
           \<longleftrightarrow> tf = p' \<or> (onb \<and> p' = d')"
    unfolding it using m da(3) dest by (simp add: q_def)
  show "animation_phase (boarding_block (dispatch_block inp m)) = 0"
    "animation_timer (boarding_block (dispatch_block inp m)) = 0"
    unfolding it using m by (simp_all add: q_def)
qed

lemma iteration_car:
  assumes ok: "sequencer_ok s" and idle: "\<not> floor_just_reached s"
    and car: "car True onb tf p d cf w n s"
    and p': "current_position (move_block inp s) = p'"
    and d': "d' = (if tf = p' then uint (floor_choice_of inp) * 4 else d)"
    and cf': "cf' = (if p' = 0 \<or> p' = 4 \<or> p' = 8 \<or> p' = 12 then p' else cf)"
    and w': "w' = (if cf \<noteq> cf' \<and> onb then w + 1 else w)"
    and n': "n' = (if cf \<noteq> cf' \<and> \<not> onb then n + 1 else n)"
  shows "car (\<not> (onb \<and> p' = d')) (onb \<and> p' \<noteq> d') tf p' d' cf' w' n'
           (main_loop_iteration inp s)"
    and "floor_just_reached (main_loop_iteration inp s) \<longleftrightarrow> tf = p' \<or> (onb \<and> p' = d')"
    and "animation_phase (main_loop_iteration inp s) = 0"
    and "animation_timer (main_loop_iteration inp s) = 0"
proof -
  have ok': "sequencer_ok (move_block inp s)"
    using ok by (rule sequencer_ok_move)
  have idle': "\<not> floor_just_reached (move_block inp s)"
    using idle by simp
  have car': "car True onb tf p' d cf w n (move_block inp s)"
    using car p' by (simp add: car_def)
  note dc = dispatch_car [OF ok' idle' car' p' d' cf' w' n']
  show "car (\<not> (onb \<and> p' = d')) (onb \<and> p' \<noteq> d') tf p' d' cf' w' n'
           (main_loop_iteration inp s)"
    unfolding main_loop_iteration_def by (rule dc(1))
  show "floor_just_reached (main_loop_iteration inp s) \<longleftrightarrow> tf = p' \<or> (onb \<and> p' = d')"
    unfolding main_loop_iteration_def by (rule dc(2))
  show "animation_phase (main_loop_iteration inp s) = 0"
    "animation_timer (main_loop_iteration inp s) = 0"
    unfolding main_loop_iteration_def by (rule dc(3), rule dc(4))
qed

lemma main_loop_iteration_busy:
  "floor_just_reached s \<Longrightarrow> main_loop_iteration inp s = boarding_block s"
  by (simp add: main_loop_iteration_def move_block_not_due move_due_def dispatch_block_busy)

lemma idle_ticks:
  "\<not> floor_just_reached s \<Longrightarrow> \<not> floor_just_reached (run (replicate k Tick) s)"
  by (induction k arbitrary: s) (simp_all add: ISR_fjr)

lemma time_since_move_ticks [simp]:
  "time_since_move (run (replicate k Tick) s) = time_since_move s"
  by (induction k arbitrary: s) simp_all

text \<open>
  An iteration with the movement due and a traveller active, seen from its start: the
  car takes one step towards its destination and the rest follows from the position.
\<close>

lemma move_iteration:
  assumes ok: "sequencer_ok s" and idle: "\<not> floor_just_reached s"
    and car: "car True onb tf p d cf w n s"
    and ms: "ms = 200 \<or> ms = 1200"
    and p': "p' = (if p < d then p + 1 else if d < p then p - 1 else p)"
    and d': "d' = (if tf = p' then 0 else d)"
    and cf': "cf' = (if p' = 0 \<or> p' = 4 \<or> p' = 8 \<or> p' = 12 then p' else cf)"
    and w': "w' = (if cf \<noteq> cf' \<and> onb then w + 1 else w)"
    and n': "n' = (if cf \<noteq> cf' \<and> \<not> onb then n + 1 else n)"
  shows "car (\<not> (onb \<and> p' = d')) (onb \<and> p' \<noteq> d') tf p' d' cf' w' n'
           (iteration_at ms 255 s)"
    and "floor_just_reached (iteration_at ms 255 s) \<longleftrightarrow> tf = p' \<or> (onb \<and> p' = d')"
    and "animation_phase (iteration_at ms 255 s) = 0"
    and "animation_timer (iteration_at ms 255 s) = 0"
proof -
  let ?inp = "inputs_at (time_since_move s + of_nat ms) 0 255 None"
  have due: "move_due ?inp s"
    using idle ms by (auto simp: move_due_at)
  have pos: "current_position (move_block ?inp s) = p'"
    using car due by (simp add: move_block_position car_def p')
  have dest: "d' = (if tf = p' then uint (floor_choice_of ?inp) * 4 else d)"
    using d' by (simp add: floor_choice_of_0)
  note ic = iteration_car [OF ok idle car pos dest cf' w' n']
  show "car (\<not> (onb \<and> p' = d')) (onb \<and> p' \<noteq> d') tf p' d' cf' w' n'
           (iteration_at ms 255 s)"
    unfolding iteration_at_def by (rule ic(1))
  show "floor_just_reached (iteration_at ms 255 s) \<longleftrightarrow> tf = p' \<or> (onb \<and> p' = d')"
    unfolding iteration_at_def by (rule ic(2))
  show "animation_phase (iteration_at ms 255 s) = 0"
    "animation_timer (iteration_at ms 255 s) = 0"
    unfolding iteration_at_def by (rule ic(3), rule ic(4))
qed

lemma advance_car:
  assumes ok: "sequencer_ok s" and idle: "\<not> floor_just_reached s"
    and car: "car True onb tf p d cf w n s"
    and p': "p' = (if p < d then p + 1 else if d < p then p - 1 else p)"
    and d': "d' = (if tf = p' then 0 else d)"
    and cf': "cf' = (if p' = 0 \<or> p' = 4 \<or> p' = 8 \<or> p' = 12 then p' else cf)"
    and w': "w' = (if cf \<noteq> cf' \<and> onb then w + 1 else w)"
    and n': "n' = (if cf \<noteq> cf' \<and> \<not> onb then n + 1 else n)"
  shows "car (\<not> (onb \<and> p' = d')) (onb \<and> p' \<noteq> d') tf p' d' cf' w' n' (advance s)"
    and "floor_just_reached (advance s) \<longleftrightarrow> tf = p' \<or> (onb \<and> p' = d')"
    and "animation_phase (advance s) = 0"
    and "animation_timer (advance s) = 0"
proof -
  have ok1: "sequencer_ok (wait_ms 200 s)"
    unfolding wait_ms_def using ok by (rule sequencer_ok_run)
  have idle1: "\<not> floor_just_reached (wait_ms 200 s)"
    unfolding wait_ms_def using idle by (rule idle_ticks)
  have car1: "car True onb tf p d cf w n (wait_ms 200 s)"
    unfolding wait_ms_def using car by simp
  note mi = move_iteration [OF ok1 idle1 car1 disjI1 [OF refl] p' d' cf' w' n']
  show "car (\<not> (onb \<and> p' = d')) (onb \<and> p' \<noteq> d') tf p' d' cf' w' n' (advance s)"
    unfolding advance_def by (rule mi(1))
  show "floor_just_reached (advance s) \<longleftrightarrow> tf = p' \<or> (onb \<and> p' = d')"
    unfolding advance_def by (rule mi(2))
  show "animation_phase (advance s) = 0" "animation_timer (advance s) = 0"
    unfolding advance_def by (rule mi(3), rule mi(4))
qed

text \<open>
  The request: the car rests at floor 0, the movement block is due and leaves it
  there, button 1 is read with the switches on floor 0.
\<close>

lemma request_iteration:
  assumes ok: "sequencer_ok s" and home: "home w n s"
  shows "car True False 4 0 4 0 w n (iteration_at 1200 1 s)"
    and "\<not> floor_just_reached (iteration_at 1200 1 s)"
proof -
  let ?inp = "inputs_at (time_since_move s + of_nat 1200) 0 1 None"
  define m where "m = move_block ?inp s"
  define s1 where "s1 = handle_inputs (floor_choice_of ?inp) ?inp m"
  have fc: "floor_choice_of ?inp = 0"
    by (simp add: floor_choice_of_0)
  have m: "\<not> floor_just_reached m" "\<not> traveller_active m" "current_position m = 0"
    "\<not> traveller_onboard m" "current_floor m = 0" "old_floor m = 0"
    "floors_w_traveller m = w" "floors_no_traveller m = n"
    "animation_phase m = animation_phase s" "animation_timer m = animation_timer s"
    "elevator_door_open m = elevator_door_open s"
    using home by (simp_all add: m_def home_def move_block_position)
  have el: "eligible 0 ?inp 1" "\<And>k. k < 1 \<Longrightarrow> \<not> eligible 0 ?inp k"
    by (simp_all add: eligible_def selected_button_only)
  have hi: "handle_inputs 0 ?inp m =
      m\<lparr>destination := 4 * int 1,
        matrix := matrix m @ [(5, 4 * int 1 + 1, colours ! unat (0 :: 8 word))],
        traveller_active := True, traveller_floor := 4 * int 1,
        button_just_pushed := True\<rparr>"
    using handle_inputs_at [of 1 0 ?inp m] el m(2) by simp
  have s1: "traveller_active s1" "traveller_floor s1 = 4" "destination s1 = 4"
    unfolding s1_def fc hi by simp_all
  have s1': "\<not> floor_just_reached s1" "current_position s1 = 0" "\<not> traveller_onboard s1"
    "current_floor s1 = 0" "old_floor s1 = 0"
    "floors_w_traveller s1 = w" "floors_no_traveller s1 = n"
    "animation_phase s1 = animation_phase s" "animation_timer s1 = animation_timer s"
    "elevator_door_open s1 = elevator_door_open s"
    using m by (simp_all add: s1_def)
  have idle: "\<not> floor_just_reached s"
    using home by (simp add: home_def)
  have ok1: "sequencer_ok s1"
    using ok idle s1' by (auto simp: sequencer_ok_def)
  have car1: "car True False 4 0 4 0 w n s1"
    using s1 s1' by (simp add: car_def)
  have again: "handle_inputs (floor_choice_of ?inp) ?inp s1 = s1"
    using s1(1) by (simp add: handle_inputs_rejected)
  have same: "dispatch_block ?inp m = dispatch_block ?inp s1"
    unfolding dispatch_block_idle [OF m(1)] dispatch_block_idle [OF s1'(1)] again
    by (simp add: s1_def)
  have it: "iteration_at 1200 1 s = boarding_block (dispatch_block ?inp s1)"
    unfolding iteration_at_def main_loop_iteration_def same [symmetric] m_def ..
  note dc = dispatch_car [OF ok1 s1'(1) car1 s1'(2) refl refl refl refl, of ?inp]
  from dc(1) show "car True False 4 0 4 0 w n (iteration_at 1200 1 s)"
    unfolding it by simp
  from dc(2) show "\<not> floor_just_reached (iteration_at 1200 1 s)"
    unfolding it by simp
qed

lemma run_ticks_801: "run (replicate 801 Tick) s = ISR (run (replicate 800 Tick) s)"
proof -
  have "run (replicate (800 + 1) Tick) s = run (replicate 1 Tick) (run (replicate 800 Tick) s)"
    by (rule run_ticks_add)
  then show ?thesis by simp
qed

text \<open>
  A whole door animation, from the trigger to the end of the closing phase: 2400
  interrupts, and the iteration of the main loop that runs with the doors open, in which
  a waiting traveller boards.
\<close>

lemma door_cycle_car:
  assumes ok: "sequencer_ok s" and fjr: "floor_just_reached s"
    and ph: "animation_phase s = 0" and tm: "animation_timer s = 0"
    and car: "car act onb tf p d cf w n s"
  shows "car act (onb \<or> (act \<and> tf = p)) tf p d cf w n (door_cycle s)"
    and "\<not> floor_just_reached (door_cycle s)"
proof -
  define s1 where "s1 = run (replicate 801 Tick) s"
  define s2 where "s2 = iteration_at 400 255 s1"
  have s0: "seq_at 0 0 s"
    using fjr ph tm by (simp add: seq_at_def)
  have "seq_at (0 + 1) 0 (run (replicate 800 Tick) s)"
    using s0 by (rule seq_at_800) simp
  then have "seq_at 1 (0 + 1) (ISR (run (replicate 800 Tick) s))"
    by (intro seq_at_tick) simp_all
  then have seq1: "seq_at 1 1 s1"
    by (simp add: s1_def run_ticks_801)
  then have v1: "animation_phase s1 = 1" "animation_timer s1 = 1" "floor_just_reached s1"
    by (simp_all add: seq_at_def word_unat_eq_iff)
  have ok1: "sequencer_ok s1"
    unfolding s1_def using ok by (rule sequencer_ok_run)
  with v1 have open1: "elevator_door_open s1"
    by (simp add: sequencer_ok_def)
  have car1: "car act onb tf p d cf w n s1"
    using car by (simp add: s1_def)
  have s2: "s2 = boarding_block s1"
    unfolding s2_def iteration_at_def using v1(3) by (rule main_loop_iteration_busy)
  have car2: "car act (onb \<or> (act \<and> tf = p)) tf p d cf w n s2"
    using car1 open1 unfolding s2 car_def
    by (auto simp: boarding_block_onboard boarding_block_def)
  have "seq_at 1 1 (step Boarding s1)"
    using seq1 by (rule seq_at_main) simp
  then have seq2: "seq_at 1 1 s2"
    by (simp add: s2)
  have dc: "door_cycle s = run (replicate 1599 Tick) s2"
    by (simp add: door_cycle_def s2_def s1_def)
  show "car act (onb \<or> (act \<and> tf = p)) tf p d cf w n (door_cycle s)"
    unfolding dc using car2 by simp
  show "\<not> floor_just_reached (door_cycle s)"
    unfolding dc using animation_completes [OF seq2] by simp
qed

lemma reachable_iteration_at: "reachable AtMove s \<Longrightarrow> reachable AtMove (iteration_at ms b s)"
  unfolding iteration_at_def by (rule reachable_iteration)

lemma reachable_advance: "reachable AtMove s \<Longrightarrow> reachable AtMove (advance s)"
  unfolding advance_def wait_ms_def
  by (intro reachable_iteration_at reachable_ticks)

lemma reachable_door_cycle: "reachable AtMove s \<Longrightarrow> reachable AtMove (door_cycle s)"
  unfolding door_cycle_def
  by (intro reachable_ticks reachable_iteration_at)

lemma home_iff:
  "home w n s \<longleftrightarrow> car False False (traveller_floor s) 0 0 0 w n s \<and> \<not> floor_just_reached s"
  by (auto simp: home_def car_def)

lemma funpow_3: "(f ^^ 3) x = f (f (f x))"
  by (simp add: eval_nat_numeral)

lemma funpow_4: "(f ^^ 4) x = f (f (f (f x)))"
  by (simp add: eval_nat_numeral)

text \<open>The way up: the request, three steps between the floors, the arrival at floor 1.\<close>

lemma way_up:
  assumes r: "reachable AtMove s" and h: "home w n s"
  shows "reachable AtMove ((advance ^^ 3) (iteration_at 1200 1 s))"
    and "car True False 4 3 4 0 w n ((advance ^^ 3) (iteration_at 1200 1 s))"
    and "\<not> floor_just_reached ((advance ^^ 3) (iteration_at 1200 1 s))"
proof -
  define a0 where "a0 = iteration_at 1200 1 s"
  define a1 where "a1 = advance a0"
  define a2 where "a2 = advance a1"
  define a3 where "a3 = advance a2"
  have r0: "reachable AtMove a0"
    unfolding a0_def using r by (rule reachable_iteration_at)
  have r1: "reachable AtMove a1"
    unfolding a1_def using r0 by (rule reachable_advance)
  have r2: "reachable AtMove a2"
    unfolding a2_def using r1 by (rule reachable_advance)
  have r3: "reachable AtMove a3"
    unfolding a3_def using r2 by (rule reachable_advance)
  note q0 = request_iteration [OF reachable_sequencer_ok [OF r] h, folded a0_def]
  note q1 = advance_car [OF reachable_sequencer_ok [OF r0] q0(2) q0(1) refl refl refl refl refl,
      folded a1_def, simplified]
  note q2 = advance_car [OF reachable_sequencer_ok [OF r1] q1(2) q1(1) refl refl refl refl refl,
      folded a2_def, simplified]
  note q3 = advance_car [OF reachable_sequencer_ok [OF r2] q2(2) q2(1) refl refl refl refl refl,
      folded a3_def, simplified]
  have e: "(advance ^^ 3) (iteration_at 1200 1 s) = a3"
    by (simp add: funpow_3 a3_def a2_def a1_def a0_def)
  show "reachable AtMove ((advance ^^ 3) (iteration_at 1200 1 s))"
    unfolding e by (rule r3)
  show "car True False 4 3 4 0 w n ((advance ^^ 3) (iteration_at 1200 1 s))"
    unfolding e by (rule q3(1))
  show "\<not> floor_just_reached ((advance ^^ 3) (iteration_at 1200 1 s))"
    unfolding e by (rule q3(2))
qed

lemma arrival_up:
  assumes r: "reachable AtMove s" and idle: "\<not> floor_just_reached s"
    and car: "car True False 4 3 4 0 w n s"
  shows "car True False 4 4 0 4 w (n + 1) (advance s)"
    and "floor_just_reached (advance s)"
    and "animation_phase (advance s) = 0"
    and "animation_timer (advance s) = 0"
  using advance_car [OF reachable_sequencer_ok [OF r] idle car refl refl refl refl refl]
  by simp_all

lemma way_down:
  assumes r: "reachable AtMove s" and idle: "\<not> floor_just_reached s"
    and car: "car True True 4 4 0 4 w n s"
  shows "reachable AtMove ((advance ^^ 3) (iteration_at 1200 255 s))"
    and "car False False 4 0 0 0 (w + 1) n ((advance ^^ 3) (iteration_at 1200 255 s))"
    and "floor_just_reached ((advance ^^ 3) (iteration_at 1200 255 s))"
    and "animation_phase ((advance ^^ 3) (iteration_at 1200 255 s)) = 0"
    and "animation_timer ((advance ^^ 3) (iteration_at 1200 255 s)) = 0"
proof -
  define a0 where "a0 = iteration_at 1200 255 s"
  define a1 where "a1 = advance a0"
  define a2 where "a2 = advance a1"
  define a3 where "a3 = advance a2"
  have r0: "reachable AtMove a0"
    unfolding a0_def using r by (rule reachable_iteration_at)
  have r1: "reachable AtMove a1"
    unfolding a1_def using r0 by (rule reachable_advance)
  have r2: "reachable AtMove a2"
    unfolding a2_def using r1 by (rule reachable_advance)
  have r3: "reachable AtMove a3"
    unfolding a3_def using r2 by (rule reachable_advance)
  note q0 = move_iteration [OF reachable_sequencer_ok [OF r] idle car disjI2 [OF refl]
      refl refl refl refl refl, folded a0_def, simplified]
  note q1 = advance_car [OF reachable_sequencer_ok [OF r0] q0(2) q0(1) refl refl refl refl refl,
      folded a1_def, simplified]
  note q2 = advance_car [OF reachable_sequencer_ok [OF r1] q1(2) q1(1) refl refl refl refl refl,
      folded a2_def, simplified]
  note q3 = advance_car [OF reachable_sequencer_ok [OF r2] q2(2) q2(1) refl refl refl refl refl,
      folded a3_def, simplified]
  have e: "(advance ^^ 3) (iteration_at 1200 255 s) = a3"
    by (simp add: funpow_3 a3_def a2_def a1_def a0_def)
  show "reachable AtMove ((advance ^^ 3) (iteration_at 1200 255 s))"
    unfolding e by (rule r3)
  show "car False False 4 0 0 0 (w + 1) n ((advance ^^ 3) (iteration_at 1200 255 s))"
    unfolding e by (rule q3(1))
  show "floor_just_reached ((advance ^^ 3) (iteration_at 1200 255 s))"
    unfolding e by (rule q3(2))
  show "animation_phase ((advance ^^ 3) (iteration_at 1200 255 s)) = 0"
    "animation_timer ((advance ^^ 3) (iteration_at 1200 255 s)) = 0"
    unfolding e by (rule q3(3), rule q3(4))
qed

lemma round_trip_home:
  assumes r: "reachable AtMove s" and h: "home w n s"
  shows "reachable AtMove (round_trip s)" and "home (w + 1) (n + 1) (round_trip s)"
proof -
  define a where "a = (advance ^^ 3) (iteration_at 1200 1 s)"
  define b where "b = door_cycle (advance a)"
  define c where "c = (advance ^^ 3) (iteration_at 1200 255 b)"
  note up = way_up [OF r h, folded a_def]
  note arr = arrival_up [OF up(1) up(3) up(2)]
  have ra: "reachable AtMove (advance a)"
    using up(1) by (rule reachable_advance)
  note dc = door_cycle_car [OF reachable_sequencer_ok [OF ra] arr(2) arr(3) arr(4) arr(1),
      folded b_def, simplified]
  have rb: "reachable AtMove b"
    unfolding b_def using ra by (rule reachable_door_cycle)
  note down = way_down [OF rb dc(2) dc(1), folded c_def]
  note dd = door_cycle_car [OF reachable_sequencer_ok [OF down(1)] down(3) down(4) down(5)
      down(2), simplified]
  have e: "round_trip s = door_cycle c"
    by (simp add: round_trip_def c_def b_def a_def funpow_3 funpow_4)
  show "reachable AtMove (round_trip s)"
    unfolding e using down(1) by (rule reachable_door_cycle)
  from dd show "home (w + 1) (n + 1) (round_trip s)"
    unfolding e by (simp add: home_def car_def)
qed

lemma home_initial: "home 0 0 (wait_ms 1200 (initial_state 0))"
proof -
  have "car False False 0 0 0 0 0 0 (initial_state 0)"
    by (simp add: car_def initial_state_def FLOOR_0_def)
  then have "car False False 0 0 0 0 0 0 (wait_ms 1200 (initial_state 0))"
    by (simp add: wait_ms_def)
  moreover have "\<not> floor_just_reached (wait_ms 1200 (initial_state 0))"
    unfolding wait_ms_def by (rule idle_ticks) (simp add: initial_state_def)
  ultimately show ?thesis by (simp add: home_def car_def)
qed

lemma round_trips:
  "reachable AtMove ((round_trip ^^ k) (wait_ms 1200 (initial_state 0)))
   \<and> home (of_nat k) (of_nat k) ((round_trip ^^ k) (wait_ms 1200 (initial_state 0)))"
proof (induction k)
  case 0
  have "reachable AtMove (wait_ms 1200 (initial_state 0))"
    unfolding wait_ms_def by (intro reachable_ticks reachable.start)
  with home_initial show ?case by simp
next
  case (Suc k)
  then have r: "reachable AtMove ((round_trip ^^ k) (wait_ms 1200 (initial_state 0)))"
    and h: "home (of_nat k) (of_nat k) ((round_trip ^^ k) (wait_ms 1200 (initial_state 0)))"
    by simp_all
  from round_trip_home [OF r h] show ?case by (simp add: add.commute)
qed

lemma counter_full_run:
  "reachable AtMove counter_full" "\<not> floor_just_reached counter_full" "car True False 4 3 4 0 255 255 counter_full"
proof -
  from round_trips [of 255]
  have r: "reachable AtMove ((round_trip ^^ 255) (wait_ms 1200 (initial_state 0)))"
    and h: "home 255 255 ((round_trip ^^ 255) (wait_ms 1200 (initial_state 0)))"
    by simp_all
  note up = way_up [OF r h, folded counter_full_def]
  show "reachable AtMove counter_full" "\<not> floor_just_reached counter_full"
    "car True False 4 3 4 0 255 255 counter_full"
    by (rule up(1), rule up(3), rule up(2))
qed


lemma counter_full_fields:
  "floors_no_traveller counter_full = 255" "floors_w_traveller counter_full = 255"
  "\<not> traveller_onboard counter_full"
  "old_floor counter_full = 0" "current_floor counter_full = 0"
  "current_position counter_full = 3" "\<not> on_a_floor counter_full"
  using counter_full_run(3) by (simp_all add: car_def on_a_floor_iff)

text \<open>
  C8. The counters are \<^verbatim>\<open>uint8_t\<close>: the 256th floor change counted by one of them takes
  it from 255 back to 0, so they are not monotonic. \<open>counter_full\<close> is reached from
  power-up by 255 travellers carried from floor 1 to floor 0 and a 256th request: the
  car is one step below floor 1, no traveller on board, 255 floors counted without a
  traveller. The next iteration of the main loop takes the car to floor 1,
  \<^verbatim>\<open>handle_displays\<close> registers the floor change, and the counter of floors without
  traveller reads 0.
\<close>

theorem floor_counter_wraps:
  "reachable AtMove counter_full
   \<and> floors_no_traveller counter_full = 255
   \<and> \<not> traveller_onboard counter_full
   \<and> current_floor (advance counter_full) \<noteq> current_floor counter_full
   \<and> floors_no_traveller (advance counter_full) = 0
   \<and> floors_no_traveller (advance counter_full) < floors_no_traveller counter_full"
proof -
  note w = counter_full_run
  note a = arrival_up [OF w]
  from w(3) a(1) have "floors_no_traveller counter_full = 255"
    "\<not> traveller_onboard counter_full"
    "current_floor counter_full = 0" "current_floor (advance counter_full) = 4"
    "floors_no_traveller (advance counter_full) = 0"
    by (simp_all add: car_def)
  with w(1) show ?thesis by simp
qed

theorem floor_counter_wraps_witness:
  "floors_no_traveller (advance counter_full) = 0
   \<and> floors_no_traveller counter_full = 255"
  using floor_counter_wraps by (intro conjI) (elim conjE, assumption)+


section \<open>One arrival, two door animations\<close>

lemma run_ticks_1598:
  "run (replicate 1598 Tick) s = run (replicate 799 Tick) (ISR (run (replicate 798 Tick) s))"
proof -
  have "run (replicate (798 + 1 + 799) Tick) s =
      run (replicate 799 Tick) (run (replicate 1 Tick) (run (replicate 798 Tick) s))"
    by (simp only: run_ticks_add)
  then show ?thesis by simp
qed

lemma seq_at_closing_end: "seq_at 2 799 closing_end"
proof -
  have "seq_at 1 (1 + tick_count (replicate 798 Tick)) (run (replicate 798 Tick) boarded)"
    using seq_at_boarded by (rule seq_at_run) simp
  then have "seq_at 1 799 (run (replicate 798 Tick) boarded)" by simp
  then have "seq_at (1 + 1) 0 (ISR (run (replicate 798 Tick) boarded))"
    by (rule seq_at_next) simp
  then have "seq_at 2 (0 + tick_count (replicate 799 Tick))
      (run (replicate 799 Tick) (ISR (run (replicate 798 Tick) boarded)))"
    by (intro seq_at_run) simp_all
  then show ?thesis by (simp add: closing_end_def run_ticks_1598)
qed

lemma car_closing_end:
  "traveller_active closing_end" "traveller_onboard closing_end"
  "traveller_floor closing_end = 0" "current_position closing_end = 0"
  "destination closing_end = 4"
  using run_ticks_car [of 1598 boarded] by (simp_all add: closing_end_def car_boarded)

lemma move_block_closing_end:
  "move_block (inputs_at 1200 32 255 None) closing_end = closing_end"
  using seq_at_closing_end by (intro move_block_not_due) (simp add: move_due_def seq_at_def)

lemma closed_again_fields:
  "\<not> floor_just_reached closed_again" "animation_phase closed_again = 0"
  "animation_timer closed_again = 0"
  "traveller_active closed_again" "traveller_onboard closed_again"
  "traveller_floor closed_again = 0" "current_position closed_again = 0"
  "destination closed_again = 4"
proof -
  have e: "closed_again = ISR closing_end"
    by (simp add: closed_again_def move_block_closing_end)
  note se = seq_at_end [OF seq_at_closing_end]
  from se(3) show "\<not> floor_just_reached closed_again" by (simp add: e)
  from se(1) show "animation_phase closed_again = 0" by (simp add: e)
  from se(2) show "animation_timer closed_again = 0" by (simp add: e)
  show "traveller_active closed_again" "traveller_onboard closed_again"
    "traveller_floor closed_again = 0" "current_position closed_again = 0"
    "destination closed_again = 4"
    by (simp_all add: e car_closing_end)
qed

lemma reachable_closed_again: "reachable AtDispatch closed_again"
  unfolding closed_again_def closing_end_def
  by (intro reachable.tick reachable.move reachable_ticks reachable_boarded)

lemma reachable_retriggered: "reachable AtBoarding retriggered"
  unfolding retriggered_def by (intro reachable.dispatch reachable_closed_again)

lemma retriggered_fields:
  "floor_just_reached retriggered" "animation_phase retriggered = 0"
  "animation_timer retriggered = 0" "traveller_onboard retriggered"
  "current_position retriggered = 0" "destination retriggered = 4"
proof -
  note c = closed_again_fields
  note da = dispatch_block_active [OF c(1) c(4), of "inputs_at 1200 32 255 None",
      folded retriggered_def]
  from da(1) c show d: "destination retriggered = 4"
    by (simp add: floor_choice_of_32)
  from da(3) c show "floor_just_reached retriggered" by simp
  from da(4) c d show "traveller_onboard retriggered" by simp
  from c show "animation_phase retriggered = 0" "animation_timer retriggered = 0"
    "current_position retriggered = 0"
    by (simp_all add: retriggered_def)
qed

text \<open>
  C2. The doors can cycle twice for one arrival. In \<open>called_at_floor_0\<close> the car is at
  the traveller's floor and the doors are triggered; they open (\<open>opening_entry\<close>), the
  traveller boards, they close, and the animation ends (\<open>closed_again\<close>) with the car
  where it was. The block at line 263 then runs before the car has moved: line 279
  tests the traveller's floor but not \<^verbatim>\<open>traveller_onboard\<close>, and sets
  \<^verbatim>\<open>floor_just_reached\<close> again. 800 interrupts later the sequencer enters its opening
  phase a second time, and the doors open again, the car still at the same floor with
  the traveller on board.
\<close>

theorem door_retriggered:
  "reachable AtBoarding retriggered
   \<and> seq_at 1 0 opening_entry
   \<and> \<not> floor_just_reached closed_again
   \<and> current_position closed_again = current_position called_at_floor_0
   \<and> current_position retriggered = current_position called_at_floor_0
   \<and> traveller_onboard retriggered
   \<and> floor_just_reached retriggered
   \<and> seq_at 1 0 (run (replicate 800 Tick) retriggered)
   \<and> elevator_door_open (run (replicate 801 Tick) retriggered)"
proof -
  note f = retriggered_fields
  from f have s0: "seq_at 0 0 retriggered"
    by (simp add: seq_at_def)
  have "seq_at (0 + 1) 0 (run (replicate 800 Tick) retriggered)"
    using s0 by (rule seq_at_800) simp
  then have s1: "seq_at 1 0 (run (replicate 800 Tick) retriggered)" by simp
  then have "seq_at 1 (0 + 1) (ISR (run (replicate 800 Tick) retriggered))"
    by (intro seq_at_tick) simp_all
  then have s2: "seq_at 1 1 (run (replicate 801 Tick) retriggered)"
    by (simp add: run_ticks_801)
  have "reachable AtBoarding (run (replicate 801 Tick) retriggered)"
    by (intro reachable_ticks reachable_retriggered)
  then have "sequencer_ok (run (replicate 801 Tick) retriggered)"
    by (rule reachable_sequencer_ok)
  moreover from s2 have "animation_phase (run (replicate 801 Tick) retriggered) = 1"
    "animation_timer (run (replicate 801 Tick) retriggered) = 1"
    by (simp_all add: seq_at_def word_unat_eq_iff)
  ultimately have op: "elevator_door_open (run (replicate 801 Tick) retriggered)"
    by (simp add: sequencer_ok_def)
  show ?thesis
    using reachable_retriggered seq_at_opening_entry closed_again_fields(1,7) f(1,4,5) s1 op
      car_called_at_floor_0(4)
    by simp
qed

theorem door_retriggered_witness:
  "floor_just_reached retriggered \<and> \<not> floor_just_reached closed_again"
  using door_retriggered by (intro conjI) (elim conjE, assumption)+


section \<open>A traveller left at the origin\<close>

lemma switches_on_1_car:
  assumes ok: "sequencer_ok s" and idle: "\<not> floor_just_reached s"
    and car: "car True onb tf p d cf w n s"
    and ms: "ms = 200 \<or> ms = 1200"
    and p': "p' = (if p < d then p + 1 else if d < p then p - 1 else p)"
    and d': "d' = (if tf = p' then 4 else d)"
    and cf': "cf' = (if p' = 0 \<or> p' = 4 \<or> p' = 8 \<or> p' = 12 then p' else cf)"
    and w': "w' = (if cf \<noteq> cf' \<and> onb then w + 1 else w)"
    and n': "n' = (if cf \<noteq> cf' \<and> \<not> onb then n + 1 else n)"
  shows "car (\<not> (onb \<and> p' = d')) (onb \<and> p' \<noteq> d') tf p' d' cf' w' n'
           (switches_on_1 ms s)"
    and "floor_just_reached (switches_on_1 ms s) \<longleftrightarrow> tf = p' \<or> (onb \<and> p' = d')"
    and "animation_phase (switches_on_1 ms s) = 0"
    and "animation_timer (switches_on_1 ms s) = 0"
proof -
  let ?inp = "inputs_at (time_since_move s + of_nat ms) 32 255 None"
  have due: "move_due ?inp s"
    using idle ms by (auto simp: move_due_at)
  have pos: "current_position (move_block ?inp s) = p'"
    using car due by (simp add: move_block_position car_def p')
  have dest: "d' = (if tf = p' then uint (floor_choice_of ?inp) * 4 else d)"
    using d' by (simp add: floor_choice_of_32)
  note ic = iteration_car [OF ok idle car pos dest cf' w' n']
  show "car (\<not> (onb \<and> p' = d')) (onb \<and> p' \<noteq> d') tf p' d' cf' w' n'
           (switches_on_1 ms s)"
    unfolding switches_on_1_def by (rule ic(1))
  show "floor_just_reached (switches_on_1 ms s) \<longleftrightarrow> tf = p' \<or> (onb \<and> p' = d')"
    unfolding switches_on_1_def by (rule ic(2))
  show "animation_phase (switches_on_1 ms s) = 0"
    "animation_timer (switches_on_1 ms s) = 0"
    unfolding switches_on_1_def by (rule ic(3), rule ic(4))
qed

lemma reachable_switches_on_1:
  "reachable AtMove s \<Longrightarrow> reachable AtMove (switches_on_1 ms s)"
  unfolding switches_on_1_def by (rule reachable_iteration)

text \<open>
  With the switches left on the traveller's own floor the traveller is not carried at
  all: at the arrival \<^verbatim>\<open>destination\<close> becomes the coordinate of that floor, and the
  iteration after the door animation drops the traveller where the car stands, at
  floor 1, no floor counted with a traveller on board.
\<close>

lemma traveller_left_at_origin:
  "reachable AtMove left_at_origin
   \<and> car True False 4 3 4 0 0 0 awaited
   \<and> destination (switches_on_1 200 (wait_ms 200 awaited)) = 4
   \<and> car False False 4 4 4 4 0 1 left_at_origin"
proof -
  define b where "b = switches_on_1 200 (wait_ms 200 awaited)"
  define c where "c = door_cycle b"
  have r0: "reachable AtMove (wait_ms 1200 (initial_state 0))"
    unfolding wait_ms_def by (intro reachable_ticks reachable.start)
  note up = way_up [OF r0 home_initial, folded awaited_def]
  have rw: "reachable AtMove (wait_ms 200 awaited)"
    unfolding wait_ms_def using up(1) by (rule reachable_ticks)
  have iw: "\<not> floor_just_reached (wait_ms 200 awaited)"
    unfolding wait_ms_def using up(3) by (rule idle_ticks)
  have cw: "car True False 4 3 4 0 0 0 (wait_ms 200 awaited)"
    unfolding wait_ms_def using up(2) by simp
  note qb = switches_on_1_car [OF reachable_sequencer_ok [OF rw] iw cw disjI1 [OF refl]
      refl refl refl refl refl, folded b_def, simplified]
  have rb: "reachable AtMove b"
    unfolding b_def using rw by (rule reachable_switches_on_1)
  note qc = door_cycle_car [OF reachable_sequencer_ok [OF rb] qb(2) qb(3) qb(4) qb(1),
      folded c_def, simplified]
  have rc: "reachable AtMove c"
    unfolding c_def using rb by (rule reachable_door_cycle)
  note qd = switches_on_1_car [OF reachable_sequencer_ok [OF rc] qc(2) qc(1) disjI2 [OF refl]
      refl refl refl refl refl, simplified]
  have e: "left_at_origin = switches_on_1 1200 c"
    by (simp add: left_at_origin_def c_def b_def)
  have "reachable AtMove left_at_origin"
    unfolding e using rc by (rule reachable_switches_on_1)
  moreover from qb(1) have "destination b = 4" by (simp add: car_def)
  ultimately show ?thesis
    using up(2) qd(1) unfolding e b_def by simp
qed


section \<open>Further properties\<close>

lemma floor_choice_of_bound: "unat (floor_choice_of inp) < 4"
proof -
  have e: "floor_choice_of inp = drop_bit 5 (pinc_floor inp) AND 3"
    by (simp add: floor_choice_of_def PC5_def PC6_def)
  have "drop_bit 5 (pinc_floor inp) AND 3 \<le> 3"
    by (rule word_and_le1)
  then have "unat (floor_choice_of inp) \<le> 3"
    by (simp add: e word_le_nat_alt)
  then show ?thesis by simp
qed

lemma traveller_ok_dispatch: "traveller_ok s \<Longrightarrow> traveller_ok (dispatch_block inp s)"
proof (cases "floor_just_reached s")
  case True
  assume "traveller_ok s"
  with True show ?thesis by (simp add: dispatch_block_busy)
next
  case False
  assume ok: "traveller_ok s"
  define s4 where "s4 = begin_pickup (handle_displays
       (set_pickup_destination (floor_choice_of inp)
         (handle_inputs (floor_choice_of inp) inp s)))"
  have d: "dispatch_block inp s = drop_off s4"
    using False by (simp add: dispatch_block_idle s4_def)
  have "traveller_active s \<Longrightarrow> traveller_active (handle_inputs (floor_choice_of inp) inp s)"
    by (simp add: handle_inputs_rejected)
  with ok have "traveller_onboard s4 \<longrightarrow> traveller_active s4"
    by (simp add: s4_def traveller_ok_def)
  then show ?thesis
    by (simp add: d drop_off_def traveller_ok_def)
qed

lemma reachable_traveller_ok: "reachable pc s \<Longrightarrow> traveller_ok s"
proof (induction rule: reachable.induct)
  case (start t0)
  show ?case by (simp add: traveller_ok_def initial_state_def)
next
  case (tick pc s)
  then show ?case by (simp add: traveller_ok_def)
next
  case (move s inp)
  then show ?case by (simp add: traveller_ok_def)
next
  case (dispatch s inp)
  from dispatch.IH show ?case by (rule traveller_ok_dispatch)
next
  case (boarding s)
  then show ?case by (auto simp: traveller_ok_def boarding_block_onboard)
qed

lemma isr_animation_idle_sound:
  assumes "animation_phase s = 0"
  shows "OCR2A (isr_animation s) = OCR2A s" "OCR2B (isr_animation s) = OCR2B s"
    "DDRD (isr_animation s) = DDRD s"
  using assms by (simp_all add: isr_animation_def)

lemma not_100_le_1: "\<not> (100 :: 8 word) \<le> 1"
  by (simp add: word_le_nat_alt)

lemma isr_timers_feedback:
  assumes "button_just_pushed s"
  shows "button_timer s = 0 \<Longrightarrow> tone_3kHz (isr_timers s)"
    and "button_timer s + 1 \<noteq> 1 \<Longrightarrow> \<not> 100 \<le> button_timer s + 1 \<Longrightarrow>
         OCR2A (isr_timers s) = OCR2A s \<and> OCR2B (isr_timers s) = OCR2B s
         \<and> DDRD (isr_timers s) = DDRD s"
    and "100 \<le> button_timer s + 1 \<Longrightarrow> silent (isr_timers s)"
  using assms
  by (auto simp: isr_timers_def Let_def tone_3kHz_def silent_def start_3kHz_sound_def
      stop_sound_def PD6_def bit_simps not_100_le_1)

lemma feedback_tick:
  assumes fb: "feedback_at k s" and k: "k + 1 < 100"
  shows "feedback_at (k + 1) (ISR s)"
proof -
  define s2 where "s2 = (handle_seven_seg (digit s) s)\<lparr>digit := 1 - digit (handle_seven_seg (digit s) s)\<rparr>"
  define s3 where "s3 = isr_timers s2"
  have isr: "ISR s = isr_animation s3"
    by (simp add: ISR_def Let_def s2_def s3_def)
  from fb k have blt: "button_timer s < 100" by (simp add: feedback_at_def button_lt)
  from fb k have tlt: "animation_timer s < 800" by (simp add: feedback_at_def timer_lt)
  from fb k have b99: "button_timer s \<noteq> 99" by (auto simp: feedback_at_def)
  have pushed2: "button_just_pushed s2" "button_timer s2 = button_timer s"
    "OCR2A s2 = OCR2A s" "OCR2B s2 = OCR2B s" "DDRD s2 = DDRD s"
    using fb by (simp_all add: s2_def feedback_at_def)
  have ph3: "animation_phase s3 = 0"
    using fb by (simp add: s3_def s2_def feedback_at_def)
  note quiet = isr_animation_idle_sound [OF ph3]
  have n100: "\<not> 100 \<le> button_timer s + 1"
    using b99 by (simp add: button_facts [OF blt])
  have bt: "unat (button_timer (ISR s)) = k + 1" and bjp: "button_just_pushed (ISR s)"
    using fb n100 button_succ [OF blt] by (simp_all add: ISR_button feedback_at_def)
  have ta: "unat (timer_after s) \<le> k + 1"
    using fb timer_succ [OF tlt] by (simp add: timer_after_def feedback_at_def)
  with k have "\<not> 800 \<le> timer_after s" by (simp add: word_le_nat_alt)
  with fb ta have seq: "animation_phase (ISR s) = 0" "unat (animation_timer (ISR s)) \<le> k + 1"
    by (simp_all add: ISR_phase ISR_timer feedback_at_def)
  have tone: "tone_3kHz (ISR s)"
  proof (cases "k = 0")
    case True
    with fb have "button_timer s2 = 0"
      by (simp add: pushed2 feedback_at_def unat_0_iff)
    then have "tone_3kHz s3"
      unfolding s3_def by (rule isr_timers_feedback(1) [OF pushed2(1)])
    with quiet show ?thesis by (simp add: isr tone_3kHz_def)
  next
    case False
    with fb have "button_timer s \<noteq> 0" by (auto simp: feedback_at_def)
    then have "button_timer s2 + 1 \<noteq> 1" by (simp add: pushed2)
    moreover have "\<not> 100 \<le> button_timer s2 + 1" using n100 by (simp add: pushed2)
    ultimately have "OCR2A s3 = OCR2A s2 \<and> OCR2B s3 = OCR2B s2 \<and> DDRD s3 = DDRD s2"
      unfolding s3_def by (rule isr_timers_feedback(2) [OF pushed2(1)])
    moreover from False fb have "tone_3kHz s" by (simp add: feedback_at_def)
    ultimately show ?thesis
      using quiet by (simp add: isr tone_3kHz_def pushed2)
  qed
  from bt bjp seq tone show ?thesis by (simp add: feedback_at_def)
qed

lemma feedback_end:
  assumes fb: "feedback_at 99 s"
  shows "silent (ISR s) \<and> button_idle (ISR s)"
proof -
  define s2 where "s2 = (handle_seven_seg (digit s) s)\<lparr>digit := 1 - digit (handle_seven_seg (digit s) s)\<rparr>"
  define s3 where "s3 = isr_timers s2"
  have isr: "ISR s = isr_animation s3"
    by (simp add: ISR_def Let_def s2_def s3_def)
  from fb have b99: "button_timer s = 99"
    by (simp add: feedback_at_def word_unat_eq_iff)
  have pushed2: "button_just_pushed s2" "button_timer s2 = button_timer s"
    using fb by (simp_all add: s2_def feedback_at_def)
  have ph3: "animation_phase s3 = 0"
    using fb by (simp add: s3_def s2_def feedback_at_def)
  note quiet = isr_animation_idle_sound [OF ph3]
  have "100 \<le> button_timer s2 + 1" by (simp add: pushed2 b99)
  then have "silent s3"
    unfolding s3_def by (rule isr_timers_feedback(3) [OF pushed2(1)])
  with quiet have "silent (ISR s)" by (simp add: isr silent_def)
  moreover have "button_idle (ISR s)"
    using fb b99 by (simp add: button_idle_def ISR_button feedback_at_def)
  ultimately show ?thesis by simp
qed

lemma feedback_main:
  assumes "feedback_at k s" "sequencer_ok s" "e \<noteq> Tick"
  shows "feedback_at k (step e s)"
proof (cases e)
  case Tick
  with assms show ?thesis by simp
next
  case (Move inp)
  have "tone_3kHz (move_block inp s) = tone_3kHz s" by (simp add: tone_3kHz_def)
  with assms Move show ?thesis by (simp add: feedback_at_def)
next
  case (Dispatch inp)
  have "tone_3kHz (dispatch_block inp s) = tone_3kHz s" by (simp add: tone_3kHz_def)
  with assms Dispatch show ?thesis
    by (simp add: feedback_at_def dispatch_block_pushed)
next
  case Boarding
  have "tone_3kHz (boarding_block s) = tone_3kHz s" by (simp add: tone_3kHz_def)
  with assms Boarding show ?thesis by (simp add: feedback_at_def)
qed

lemma feedback_run:
  "feedback_at k s \<Longrightarrow> sequencer_ok s \<Longrightarrow> k + tick_count evs < 100 \<Longrightarrow>
   feedback_at (k + tick_count evs) (run evs s)"
proof (induction evs arbitrary: k s)
  case Nil
  then show ?case by simp
next
  case (Cons e evs)
  show ?case
  proof (cases "e = Tick")
    case True
    from Cons.prems True have k: "k + 1 < 100" by simp
    have "feedback_at (k + 1) (ISR s)"
      using Cons.prems(1) k by (rule feedback_tick)
    moreover have "sequencer_ok (ISR s)"
      using Cons.prems(2) by (rule sequencer_ok_ISR)
    ultimately have "feedback_at (k + 1 + tick_count evs) (run evs (ISR s))"
      using Cons.prems(3) True by (intro Cons.IH) simp_all
    with True show ?thesis by simp
  next
    case False
    with Cons.prems have "feedback_at k (step e s)" by (intro feedback_main)
    moreover have "sequencer_ok (step e s)"
      using Cons.prems(2) by (rule sequencer_ok_step)
    moreover from False have "tick_count (e # evs) = tick_count evs"
      by (cases e) simp_all
    ultimately show ?thesis
      using Cons.IH [of k "step e s"] Cons.prems(3) by simp
  qed
qed

text \<open>
  A traveller on board is an active traveller, in every reachable state: the boarding
  block sets \<^verbatim>\<open>traveller_onboard\<close> only for an active traveller, and drop-off clears both
  flags together.
\<close>

theorem onboard_implies_active:
  assumes "reachable pc s"
  shows "traveller_onboard s \<longrightarrow> traveller_active s"
  using reachable_traveller_ok [OF assms] by (simp add: traveller_ok_def)

theorem onboard_implies_active_witness:
  "reachable AtMove boarded \<and> traveller_onboard boarded \<and> traveller_active boarded"
  using onboard_implies_active [OF reachable_boarded] car_boarded(2) reachable_boarded
  by simp

text \<open>
  The two tick counters never overflow: in every reachable state \<^verbatim>\<open>animation_timer\<close> is
  below 800 and \<^verbatim>\<open>button_timer\<close> below 100, and while no animation is triggered
  \<^verbatim>\<open>animation_timer\<close> is 0.
\<close>

theorem timers_bounded:
  assumes "reachable pc s"
  shows "animation_timer s < 800 \<and> button_timer s < 100
     \<and> (\<not> floor_just_reached s \<longrightarrow> animation_timer s = 0)"
  using reachable_ok [OF assms] by (simp add: sequencer_ok_def button_ok_def)

theorem timers_bounded_witness:
  "reachable AtMove pickup_done \<and> \<not> floor_just_reached pickup_done
   \<and> animation_timer pickup_done = 0"
  using timers_bounded [OF reachable_pickup_done] travelling_pickup_done reachable_pickup_done
  by (simp add: travelling_def)

text \<open>
  One call of \<^verbatim>\<open>handle_displays\<close>: the sticky floor becomes the car's position when
  that is a floor coordinate; when this changes it, one is added (modulo 256) to the
  counter of floors with a traveller if one is on board, to the other counter if not;
  when it does not, both counters stay.
\<close>

theorem floor_change_counted:
  "current_floor (handle_displays s) =
     (if on_a_floor s then current_position s else current_floor s)
   \<and> floors_w_traveller (handle_displays s) =
     (if old_floor s \<noteq> current_floor (handle_displays s) \<and> traveller_onboard s
      then floors_w_traveller s + 1 else floors_w_traveller s)
   \<and> floors_no_traveller (handle_displays s) =
     (if old_floor s \<noteq> current_floor (handle_displays s) \<and> \<not> traveller_onboard s
      then floors_no_traveller s + 1 else floors_no_traveller s)"
  by (simp add: handle_displays_floor handle_displays_counters)

theorem floor_change_counted_witness:
  "current_floor (handle_displays counter_full) = 0
   \<and> floors_w_traveller (handle_displays counter_full) = 255
   \<and> floors_no_traveller (handle_displays counter_full) = 255"
  using floor_change_counted [of counter_full]
  by (simp add: counter_full_fields)

text \<open>
  The floor read from the switches at lines 264-265 is 0, 1, 2 or 3: every index into
  \<^verbatim>\<open>colours\<close> is within the array.
\<close>

theorem floor_choice_in_range: "unat (floor_choice_of inp) < 4"
  by (rule floor_choice_of_bound)

text \<open>
  The button feedback timer, from the state in which a request has just armed it: the
  3 kHz tone sounds from tick 1 to tick 99, whatever the main loop does in between, and
  the 100th tick stops it and disarms the timer.
\<close>

theorem button_feedback_tone:
  assumes "reachable pc s" and "button_just_pushed s" and "button_timer s = 0"
  shows "(1 \<le> tick_count evs \<and> tick_count evs < 100 \<longrightarrow>
            tone_3kHz (run evs s) \<and> button_just_pushed (run evs s))
     \<and> (tick_count evs = 99 \<longrightarrow>
            silent (run (evs @ [Tick]) s) \<and> button_idle (run (evs @ [Tick]) s))"
proof -
  from assms(1) have ok: "sequencer_ok s" and bok: "button_ok s"
    by (simp_all add: reachable_ok)
  from bok assms(2,3) have fb: "feedback_at 0 s"
    by (simp add: feedback_at_def button_ok_def)
  have during: "feedback_at (tick_count evs) (run evs s)" if "tick_count evs < 100"
    using feedback_run [OF fb ok, of evs] that by simp
  have last: "silent (run (evs @ [Tick]) s) \<and> button_idle (run (evs @ [Tick]) s)"
    if "tick_count evs = 99"
  proof -
    from that during have "feedback_at 99 (run evs s)" by simp
    then show ?thesis by (simp add: run_append feedback_end)
  qed
  from during last show ?thesis by (auto simp: feedback_at_def)
qed

theorem button_feedback_tone_witness:
  "reachable AtMove called_at_floor_1 \<and> button_just_pushed called_at_floor_1
   \<and> tone_3kHz (run [Tick] called_at_floor_1)
   \<and> tone_3kHz (run (replicate 99 Tick) called_at_floor_1)
   \<and> silent (run (replicate 99 Tick @ [Tick]) called_at_floor_1)"
proof -
  have r: "reachable AtMove called_at_floor_1"
    unfolding called_at_floor_1_def by (intro reachable_iteration reachable.start)
  have b: "button_just_pushed called_at_floor_1" "button_timer called_at_floor_1 = 0"
    by (simp_all add: called_at_floor_1_eq initial_state_def)
  note t = button_feedback_tone [OF r b]
  from t [of "[Tick]"] t [of "replicate 99 Tick"] r b show ?thesis by simp
qed

end
